theory Spec2Isabelle
  imports Main "HOL-Library.Sublist"
begin

unbundle bit_operations_syntax

section \<open>Strings\<close>

text \<open>
  The script \<^verbatim>\<open>scripts/mit_rss_to_milan_ics.py\<close> works on Python \<^verbatim>\<open>str\<close> values. A \<^verbatim>\<open>str\<close> is
  modelled as a \<^typ>\<open>string\<close> whose characters are the code points U+0000 to U+00FF (Basic
  Latin and Latin-1 Supplement), one \<^typ>\<open>char\<close> per code point. On that range the library
  functions the script calls are modelled exactly: \<^verbatim>\<open>str.lower\<close>, the operator \<^verbatim>\<open>in\<close>, the
  regular expression class \<^verbatim>\<open>\d\<close> (the only decimal digits below U+0100 are 0 to 9),
  \<^verbatim>\<open>int\<close> on a digit string and \<^verbatim>\<open>str.encode("utf-8")\<close>. Code points beyond U+00FF are
  outside the model.
\<close>

definition py_lower_char :: "char \<Rightarrow> char" where
  \<comment> \<open>\<^verbatim>\<open>str.lower\<close> on one code point: A to Z, and U+00C0 to U+00DE except the
      multiplication sign U+00D7, move up by 32; every other code point below U+0100
      (among them U+00DF, the sharp s) is its own lower case.\<close>
  "py_lower_char c =
     (let n = (of_char c :: nat)
      in if (65 \<le> n \<and> n \<le> 90) \<or> (192 \<le> n \<and> n \<le> 222 \<and> n \<noteq> 215)
         then char_of (n + 32) else c)"

definition py_lower :: "string \<Rightarrow> string" where
  "py_lower s = map py_lower_char s"

definition py_upper_char :: "char \<Rightarrow> nat list" where
  \<comment> \<open>the code points of \<^verbatim>\<open>str.upper\<close> on one code point: a to z, and U+00E0 to U+00FE
      except the division sign U+00F7, move down by 32; the sharp s U+00DF becomes the two
      letters SS; the micro sign U+00B5 becomes U+039C and U+00FF becomes U+0178, both
      beyond U+00FF; every other code point below U+0100 is its own upper case.\<close>
  "py_upper_char c =
     (let n = (of_char c :: nat)
      in if (97 \<le> n \<and> n \<le> 122) \<or> (224 \<le> n \<and> n \<le> 254 \<and> n \<noteq> 247)
         then [n - 32]
         else if n = 223 then [83, 83]
         else if n = 181 then [924]
         else if n = 255 then [376]
         else [n])"

definition py_upper :: "string \<Rightarrow> nat list" where
  "py_upper s = concat (map py_upper_char s)"

definition code_points :: "string \<Rightarrow> nat list" where
  \<comment> \<open>the code points of a string of the model; \<open>py_upper t = code_points u\<close> says that the
      string \<open>u\<close> is \<^verbatim>\<open>t.upper()\<close>\<close>
  "code_points s = map of_char s"

fun str_contains :: "string \<Rightarrow> string \<Rightarrow> bool" where
  \<comment> \<open>\<^verbatim>\<open>k in t\<close>: \<open>k\<close> occurs in \<open>t\<close> as a contiguous substring (the empty string always does).\<close>
  "str_contains [] k = (k = [])"
| "str_contains (c # t) k = (prefix k (c # t) \<or> str_contains t k)"

section \<open>Configuration defaults\<close>

definition DEFAULT_GEO_KEYWORDS :: "string list" where
  "DEFAULT_GEO_KEYWORDS =
     [''MILANO'', ''MILAN'', ''MI'', ''LOMBARDIA'', ''LOMBARDY'', ''MONZA'', ''BRIANZA'',
      ''LINATE'', ''MALPENSA'', ''BERGAMO'', ''ORIO AL SERIO'', ''VARESE'', ''COMO'',
      ''PAVIA'', ''CREMONA'', ''MANTOVA'', ''LECCO'', ''SONDRIO'', ''BRESCIA'']"

definition DEFAULT_NATIONAL_MODE_KEYWORDS :: "string list" where
  "DEFAULT_NATIONAL_MODE_KEYWORDS =
     [''TRASPORTO PUBBLICO LOCALE'', ''TPL'', ''AUTOBUS'', ''BUS'', ''METRO'',
      ''METROPOLITANA'', ''TRAM'',
      ''FERROVI'', ''TRENI'', ''TRENITALIA'', ''RFI'', ''ITALO'', ''TRENORD'',
      ''AEREO'', ''AEROPORT'', ''ENAV'', ''HANDLING'',
      ''AUTOSTRAD'', ''TAXI'']"

section \<open>Keyword matcher and inclusion decider\<close>

text \<open>
  \<^verbatim>\<open>matches_any(text, keywords)\<close> lower-cases the text once and returns at the first keyword
  whose lower-casing occurs in it. (\<^verbatim>\<open>text or ""\<close> is the identity on a \<^verbatim>\<open>str\<close>.)
\<close>

fun matches_any :: "string \<Rightarrow> string list \<Rightarrow> bool" where
  "matches_any text [] = False"
| "matches_any text (k # ks) =
     (if str_contains (py_lower text) (py_lower k) then True else matches_any text ks)"

definition should_include :: "string \<Rightarrow> string list \<Rightarrow> bool \<Rightarrow> string list \<Rightarrow> bool" where
  "should_include entry_blob geo_kw include_national nat_mode_kw =
     (if matches_any entry_blob geo_kw then True
      else if include_national
        then (if str_contains (py_lower entry_blob) ''nazionale''
                 \<and> matches_any entry_blob nat_mode_kw
              then True else False)
        else False)"

section \<open>Calendar dates\<close>

text \<open>
  \<^verbatim>\<open>datetime.date\<close> of the standard library. The constructor checks its fields and raises
  \<^verbatim>\<open>ValueError\<close>; dates compare by (year, month, day); adding \<^verbatim>\<open>timedelta(days=1)\<close> gives
  the next calendar day and raises \<^verbatim>\<open>OverflowError\<close> beyond \<^verbatim>\<open>date.max\<close>, 9999-12-31.
\<close>

datatype error = ValueError | OverflowError

datatype date = Date (year: int) (month: int) (day: int)

instantiation date :: linorder
begin

definition less_date :: "date \<Rightarrow> date \<Rightarrow> bool" where
  "less_date a b \<longleftrightarrow>
     year a < year b \<or>
     (year a = year b \<and> (month a < month b \<or> (month a = month b \<and> day a < day b)))"

definition less_eq_date :: "date \<Rightarrow> date \<Rightarrow> bool" where
  "less_eq_date a b \<longleftrightarrow> a < b \<or> a = b"

instance
proof
  fix x y z :: date
  show "x < y \<longleftrightarrow> x \<le> y \<and> \<not> y \<le> x"
    by (cases x; cases y) (auto simp: less_date_def less_eq_date_def)
  show "x \<le> x"
    by (simp add: less_eq_date_def)
  show "x \<le> y \<Longrightarrow> y \<le> z \<Longrightarrow> x \<le> z"
    by (cases x; cases y; cases z) (auto simp: less_date_def less_eq_date_def)
  show "x \<le> y \<Longrightarrow> y \<le> x \<Longrightarrow> x = y"
    by (cases x; cases y) (auto simp: less_date_def less_eq_date_def)
  show "x \<le> y \<or> y \<le> x"
    by (cases x; cases y) (auto simp: less_date_def less_eq_date_def)
qed

end

definition is_leap :: "int \<Rightarrow> bool" where
  "is_leap y \<longleftrightarrow> y mod 4 = 0 \<and> (y mod 100 \<noteq> 0 \<or> y mod 400 = 0)"

definition DAYS_IN_MONTH :: "int list" where
  "DAYS_IN_MONTH = [-1, 31, 28, 31, 30, 31, 30, 31, 31, 30, 31, 30, 31]"

definition days_in_month :: "int \<Rightarrow> int \<Rightarrow> int" where
  "days_in_month y m = (if m = 2 \<and> is_leap y then 29 else DAYS_IN_MONTH ! nat m)"

definition date_new :: "int \<Rightarrow> int \<Rightarrow> int \<Rightarrow> error + date" where
  \<comment> \<open>\<^verbatim>\<open>date(y, m, d)\<close>\<close>
  "date_new y m d =
     (if \<not> (1 \<le> y \<and> y \<le> 9999) then Inl ValueError
      else if \<not> (1 \<le> m \<and> m \<le> 12) then Inl ValueError
      else if \<not> (1 \<le> d \<and> d \<le> days_in_month y m) then Inl ValueError
      else Inr (Date y m d))"

definition valid_date :: "date \<Rightarrow> bool" where
  \<comment> \<open>the values a \<^verbatim>\<open>date\<close> object can have\<close>
  "valid_date dt \<longleftrightarrow> date_new (year dt) (month dt) (day dt) = Inr dt"

definition date_add_one_day :: "date \<Rightarrow> error + date" where
  \<comment> \<open>\<^verbatim>\<open>dt + timedelta(days=1)\<close>\<close>
  "date_add_one_day dt =
     (if dt = Date 9999 12 31 then Inl OverflowError
      else if day dt < days_in_month (year dt) (month dt)
        then Inr (Date (year dt) (month dt) (day dt + 1))
      else if month dt < 12 then Inr (Date (year dt) (month dt + 1) 1)
      else Inr (Date (year dt + 1) 1 1))"

definition DAYS_BEFORE_MONTH :: "int list" where
  "DAYS_BEFORE_MONTH = [-1, 0, 31, 59, 90, 120, 151, 181, 212, 243, 273, 304, 334]"

definition toordinal :: "date \<Rightarrow> int" where
  \<comment> \<open>\<^verbatim>\<open>date.toordinal\<close>: days since 0001-01-01, which has ordinal 1. The library adds a
      \<^verbatim>\<open>timedelta\<close> on ordinals; \<open>date_add_one_day\<close> is checked against it below.\<close>
  "toordinal dt =
     (let y = year dt - 1
      in y * 365 + y div 4 - y div 100 + y div 400
         + (DAYS_BEFORE_MONTH ! nat (month dt)
            + (if month dt > 2 \<and> is_leap (year dt) then 1 else 0))
         + day dt)"

section \<open>Date extractor\<close>

text \<open>
  The two compiled patterns of \<^verbatim>\<open>DATE_PATTERNS\<close> use a digit class, a separator class and
  greedy bounded repetition. \<open>match_items\<close> is the backtracking match of \<^verbatim>\<open>re\<close> at the
  start of a string: a repetition tries its largest count first and gives one character
  back at a time while the rest of the pattern fails. It returns the text each item
  matched and the unread rest. \<open>finditer\<close> scans from left to right for
  non-overlapping matches: after a match it goes on where the match ended, otherwise
  one character further. (No pattern here matches the empty string; the model steps
  one character after an empty match.)
\<close>

datatype cls = Digit | Sep

fun in_cls :: "cls \<Rightarrow> char \<Rightarrow> bool" where
  "in_cls Digit c = (48 \<le> (of_char c :: nat) \<and> (of_char c :: nat) \<le> 57)"
| "in_cls Sep c = (c = CHR ''/'' \<or> c = CHR ''-'')"

datatype item = Rep cls nat nat

fun first_some :: "('a \<Rightarrow> 'b option) \<Rightarrow> 'a list \<Rightarrow> 'b option" where
  "first_some f [] = None"
| "first_some f (x # xs) = (case f x of Some y \<Rightarrow> Some y | None \<Rightarrow> first_some f xs)"

fun match_items :: "item list \<Rightarrow> string \<Rightarrow> (string list \<times> string) option" where
  "match_items [] s = Some ([], s)"
| "match_items (Rep c lo hi # ps) s =
     first_some
       (\<lambda>n. if n \<le> length s \<and> list_all (in_cls c) (take n s)
            then (case match_items ps (drop n s) of
                    None \<Rightarrow> None
                  | Some (caps, rest) \<Rightarrow> Some (take n s # caps, rest))
            else None)
       (rev [lo..<Suc hi])"

function finditer :: "item list \<Rightarrow> string \<Rightarrow> string list list" where
  "finditer ps s =
     (case match_items ps s of
        Some (caps, rest) \<Rightarrow>
          (if length rest < length s then caps # finditer ps rest
           else caps # (case s of [] \<Rightarrow> [] | _ # s' \<Rightarrow> finditer ps s'))
      | None \<Rightarrow> (case s of [] \<Rightarrow> [] | _ # s' \<Rightarrow> finditer ps s'))"
  by pat_completeness auto
termination
  by (relation "measure (\<lambda>(ps, s). length s)") auto

datatype pattern =
  Pattern (pat_items: "item list") (group_y: nat) (group_m: nat) (group_d: nat)

definition DATE_PATTERNS :: "pattern list" where
  \<comment> \<open>dd/mm/yyyy and yyyy-mm-dd; the numbers say which item is the group y, m and d\<close>
  "DATE_PATTERNS =
     [Pattern [Rep Digit 1 2, Rep Sep 1 1, Rep Digit 1 2, Rep Sep 1 1, Rep Digit 4 4] 4 2 0,
      Pattern [Rep Digit 4 4, Rep Sep 1 1, Rep Digit 1 2, Rep Sep 1 1, Rep Digit 1 2] 0 2 4]"

definition py_int :: "string \<Rightarrow> int" where
  \<comment> \<open>\<^verbatim>\<open>int(s)\<close> on a string of decimal digits\<close>
  "py_int s = foldl (\<lambda>a c. 10 * a + (int (of_char c) - 48)) 0 s"

definition match_date :: "pattern \<Rightarrow> string list \<Rightarrow> error + date" where
  "match_date pat m =
     (let y = py_int (m ! group_y pat);
          mo = py_int (m ! group_m pat);
          d = py_int (m ! group_d pat)
      in date_new y mo d)"

fun scan_matches :: "pattern \<Rightarrow> date list \<Rightarrow> string list list \<Rightarrow> error + date list" where
  \<comment> \<open>the inner loop; \<^verbatim>\<open>except ValueError: pass\<close> catches that error only\<close>
  "scan_matches pat found [] = Inr found"
| "scan_matches pat found (m # ms) =
     (case match_date pat m of
        Inr dt \<Rightarrow> scan_matches pat (found @ [dt]) ms
      | Inl ValueError \<Rightarrow> scan_matches pat found ms
      | Inl e \<Rightarrow> Inl e)"

fun scan_patterns :: "string \<Rightarrow> date list \<Rightarrow> pattern list \<Rightarrow> error + date list" where
  "scan_patterns text found [] = Inr found"
| "scan_patterns text found (pat # pats) =
     (case scan_matches pat found (finditer (pat_items pat) text) of
        Inl e \<Rightarrow> Inl e
      | Inr found' \<Rightarrow> scan_patterns text found' pats)"

definition extract_dates :: "string \<Rightarrow> error + date list" where
  "extract_dates text =
     (case scan_patterns text [] DATE_PATTERNS of
        Inl e \<Rightarrow> Inl e
      | Inr found \<Rightarrow> Inr (sorted_list_of_set (set found)))"

section \<open>Span selector\<close>

fun py_min :: "date list \<Rightarrow> error + date" where
  \<comment> \<open>\<^verbatim>\<open>min\<close> of a list; \<^verbatim>\<open>ValueError\<close> on the empty list\<close>
  "py_min [] = Inl ValueError"
| "py_min (x # xs) = Inr (fold (\<lambda>d best. if d < best then d else best) xs x)"

fun py_max :: "date list \<Rightarrow> error + date" where
  "py_max [] = Inl ValueError"
| "py_max (x # xs) = Inr (fold (\<lambda>d best. if best < d then d else best) xs x)"

definition choose_event_span :: "date list \<Rightarrow> error + (date \<times> date) option" where
  "choose_event_span dates =
     (if dates = [] then Inr None
      else case py_min dates of
        Inl e \<Rightarrow> Inl e
      | Inr start \<Rightarrow>
          (case py_max dates of
             Inl e \<Rightarrow> Inl e
           | Inr latest \<Rightarrow>
               (case date_add_one_day latest of
                  Inl e \<Rightarrow> Inl e
                | Inr end_date \<Rightarrow> Inr (Some (start, end_date)))))"

section \<open>Identifier generator\<close>

text \<open>
  \<^verbatim>\<open>hashlib.sha1\<close> is SHA-1 as FIPS 180-4 defines it, on bytes; \<^verbatim>\<open>hexdigest\<close> writes the
  160-bit digest as 40 lower-case hexadecimal digits. \<^verbatim>\<open>str.encode("utf-8")\<close> gives one
  byte for a code point below U+0080 and two bytes for U+0080 to U+00FF. Bytes and 32-bit
  words are integers here, with the reduction modulo \<open>2 ^ 32\<close> written out where the
  algorithm adds, rotates or complements a word.
\<close>

definition utf8_char :: "char \<Rightarrow> int list" where
  "utf8_char c =
     (let n = (of_char c :: int)
      in if n < 128 then [n] else [192 + n div 64, 128 + n mod 64])"

definition utf8_encode :: "string \<Rightarrow> int list" where
  "utf8_encode s = concat (map utf8_char s)"

definition sha1_pad :: "int list \<Rightarrow> int list" where
  \<comment> \<open>a 1 bit, zeros up to 56 modulo 64 bytes, then the bit length as 64 bits, big-endian\<close>
  "sha1_pad msg =
     msg @ [0x80] @ replicate ((119 - length msg mod 64) mod 64) 0
       @ map (\<lambda>i. (8 * int (length msg)) div 2 ^ (8 * (7 - i)) mod 256) [0..<8]"

fun be_words :: "int list \<Rightarrow> int list" where
  "be_words (a # b # c # d # bs) = (((a * 256 + b) * 256 + c) * 256 + d) # be_words bs"
| "be_words _ = []"

fun sha1_blocks :: "int list \<Rightarrow> int list list" where
  "sha1_blocks [] = []"
| "sha1_blocks (x # xs) = take 64 (x # xs) # sha1_blocks (drop 64 (x # xs))"

definition add32 :: "int \<Rightarrow> int \<Rightarrow> int" where
  "add32 x y = (x + y) mod 2 ^ 32"

definition rotl32 :: "nat \<Rightarrow> int \<Rightarrow> int" where
  "rotl32 n x = (x * 2 ^ n) mod 2 ^ 32 + x div 2 ^ (32 - n)"

definition not32 :: "int \<Rightarrow> int" where
  "not32 x = 2 ^ 32 - 1 - x"

fun sha1_expand :: "nat \<Rightarrow> int list \<Rightarrow> int list" where
  \<comment> \<open>the message schedule: each further word from the words 3, 8, 14 and 16 back\<close>
  "sha1_expand 0 w = w"
| "sha1_expand (Suc n) w =
     (let i = length w
      in sha1_expand n
           (w @ [rotl32 1 (w ! (i - 3) XOR w ! (i - 8) XOR w ! (i - 14) XOR w ! (i - 16))]))"

definition sha1_f :: "nat \<Rightarrow> int \<Rightarrow> int \<Rightarrow> int \<Rightarrow> int" where
  "sha1_f t b c d =
     (if t < 20 then (b AND c) OR (not32 b AND d)
      else if t < 40 then b XOR c XOR d
      else if t < 60 then (b AND c) OR (b AND d) OR (c AND d)
      else b XOR c XOR d)"

definition sha1_k :: "nat \<Rightarrow> int" where
  "sha1_k t =
     (if t < 20 then 0x5A827999 else if t < 40 then 0x6ED9EBA1
      else if t < 60 then 0x8F1BBCDC else 0xCA62C1D6)"

type_synonym sha1_state = "int \<times> int \<times> int \<times> int \<times> int"

fun sha1_round :: "sha1_state \<Rightarrow> nat \<times> int \<Rightarrow> sha1_state" where
  "sha1_round (a, b, c, d, e) (t, w) =
     (add32 (add32 (add32 (add32 (rotl32 5 a) (sha1_f t b c d)) e) (sha1_k t)) w,
      a, rotl32 30 b, c, d)"

fun sha1_block :: "sha1_state \<Rightarrow> int list \<Rightarrow> sha1_state" where
  "sha1_block (h0, h1, h2, h3, h4) block =
     (case foldl sha1_round (h0, h1, h2, h3, h4)
             (zip [0..<80] (sha1_expand 64 (be_words block))) of
        (a, b, c, d, e) \<Rightarrow> (add32 h0 a, add32 h1 b, add32 h2 c, add32 h3 d, add32 h4 e))"

definition sha1 :: "int list \<Rightarrow> int list" where
  "sha1 msg =
     (case foldl sha1_block (0x67452301, 0xEFCDAB89, 0x98BADCFE, 0x10325476, 0xC3D2E1F0)
             (sha1_blocks (sha1_pad msg)) of
        (h0, h1, h2, h3, h4) \<Rightarrow> [h0, h1, h2, h3, h4])"

definition hex_digit :: "int \<Rightarrow> char" where
  "hex_digit n = ''0123456789abcdef'' ! nat (n mod 16)"

definition hex32 :: "int \<Rightarrow> string" where
  "hex32 w = map (\<lambda>i. hex_digit (w div 16 ^ (7 - i))) [0..<8]"

definition sha1_hexdigest :: "int list \<Rightarrow> string" where
  "sha1_hexdigest msg = concat (map hex32 (sha1 msg))"

definition make_uid :: "string \<Rightarrow> string \<Rightarrow> string" where
  "make_uid link title =
     (let h = sha1_hexdigest (utf8_encode (link @ ''|'' @ title))
      in ''mit-strike-'' @ h @ ''@milan'')"

section \<open>Classifier\<close>

text \<open>
  \<^verbatim>\<open>detect_scope\<close> and \<^verbatim>\<open>detect_mode\<close> return fixed bilingual labels. The labels are
  modelled as constructors; \<open>mode_en\<close> is the English half of the pair \<^verbatim>\<open>detect_mode\<close>
  returns. The Chinese halves are fixed texts outside the character range of the model.
\<close>

datatype scope = National | Regional | Province | Local | Unspecified

datatype mode = LocalPublicTransport | Rail | Air | Road | Transport

definition detect_scope :: "string \<Rightarrow> scope" where
  "detect_scope text =
     (let t = py_lower text
      in if str_contains t ''nazionale'' then National
         else if str_contains t ''regionale'' then Regional
         else if str_contains t ''provinc'' then Province
         else if str_contains t ''locale'' then Local
         else Unspecified)"

definition detect_mode :: "string \<Rightarrow> mode" where
  "detect_mode text =
     (let t = py_lower text
      in if list_ex (str_contains t)
              [''trasporto pubblico locale'', ''tpl'', ''bus'', ''autobus'', ''metro'',
               ''metropolitana'', ''tram'']
         then LocalPublicTransport
         else if list_ex (str_contains t)
              [''ferrovi'', ''treni'', ''trenitalia'', ''trenord'', ''rfi'', ''italo'']
         then Rail
         else if list_ex (str_contains t) [''aereo'', ''aeroport'', ''enav'', ''handling'']
         then Air
         else if list_ex (str_contains t) [''autostrad'', ''taxi'']
         then Road
         else Transport)"

fun mode_en :: "mode \<Rightarrow> string" where
  "mode_en LocalPublicTransport = ''Local public transport strike''"
| "mode_en Rail = ''Rail strike''"
| "mode_en Air = ''Air transport strike''"
| "mode_en Road = ''Road transport strike''"
| "mode_en Transport = ''Transport strike''"

section \<open>Pipeline\<close>

text \<open>
  The body of the loop of \<^verbatim>\<open>main\<close> over the feed entries. An entry carries what the loop
  reads: the optional attributes \<^verbatim>\<open>title\<close>, \<^verbatim>\<open>summary\<close>, \<^verbatim>\<open>description\<close>, \<^verbatim>\<open>link\<close>,
  \<^verbatim>\<open>published_parsed\<close> and \<^verbatim>\<open>updated_parsed\<close>. An event carries the identifier, the
  all-day span, the labels and the source link; the templated description is left out.
  The three configuration values are read from the environment once and handed to
  \<^verbatim>\<open>should_include\<close> only.
\<close>

record struct_time =
  tm_year :: int
  tm_mon :: int
  tm_mday :: int

record entry =
  entry_title :: "string option"
  entry_summary :: "string option"
  entry_description :: "string option"
  entry_link :: "string option"
  published_parsed :: "struct_time option"
  updated_parsed :: "struct_time option"

record event =
  ev_uid :: string
  ev_dtstart :: date
  ev_dtend :: date
  ev_mode :: mode
  ev_scope :: scope
  ev_url :: "string option"

definition str_or :: "string option \<Rightarrow> string \<Rightarrow> string" where
  \<comment> \<open>\<^verbatim>\<open>getattr(entry, name, "") or other\<close>: a missing or empty attribute gives \<open>other\<close>\<close>
  "str_or a other = (case a of None \<Rightarrow> other | Some s \<Rightarrow> if s = [] then other else s)"

definition title_of :: "entry \<Rightarrow> string" where
  "title_of e = str_or (entry_title e) []"

definition summary_of :: "entry \<Rightarrow> string" where
  "summary_of e = str_or (entry_summary e) (str_or (entry_description e) [])"

definition link_of :: "entry \<Rightarrow> string" where
  "link_of e = str_or (entry_link e) []"

definition make_blob :: "string \<Rightarrow> string \<Rightarrow> string \<Rightarrow> string" where
  \<comment> \<open>title, summary and link, one per line\<close>
  "make_blob title summary link = title @ [CHR 0x0A] @ summary @ [CHR 0x0A] @ link"

definition blob_of :: "entry \<Rightarrow> string" where
  "blob_of e = make_blob (title_of e) (summary_of e) (link_of e)"

definition fallback_dates :: "entry \<Rightarrow> date list \<Rightarrow> error + date list" where
  \<comment> \<open>\<^verbatim>\<open>if not dates\<close>: the published, or else the updated, time stamp as the one date\<close>
  "fallback_dates e dates =
     (if dates = [] then
        (case (case published_parsed e of Some p \<Rightarrow> Some p | None \<Rightarrow> updated_parsed e) of
           Some pp \<Rightarrow>
             (case date_new (tm_year pp) (tm_mon pp) (tm_mday pp) of
                Inl err \<Rightarrow> Inl err
              | Inr d \<Rightarrow> Inr [d])
         | None \<Rightarrow> Inr dates)
      else Inr dates)"

definition process_entry ::
  "string list \<Rightarrow> bool \<Rightarrow> string list \<Rightarrow> entry \<Rightarrow> error + event option" where
  \<comment> \<open>\<open>Inr None\<close>: the loop went on to the next entry (\<^verbatim>\<open>continue\<close>)\<close>
  "process_entry geo_kw include_national nat_mode_kw e =
     (let blob = blob_of e
      in if \<not> should_include blob geo_kw include_national nat_mode_kw then Inr None
         else case extract_dates blob of
           Inl err \<Rightarrow> Inl err
         | Inr dates0 \<Rightarrow>
             (case fallback_dates e dates0 of
                Inl err \<Rightarrow> Inl err
              | Inr dates \<Rightarrow>
                  (case choose_event_span dates of
                     Inl err \<Rightarrow> Inl err
                   | Inr None \<Rightarrow> Inr None
                   | Inr (Some (dtstart, dtend)) \<Rightarrow>
                       Inr (Some \<lparr> ev_uid = make_uid (link_of e) (title_of e),
                                   ev_dtstart = dtstart,
                                   ev_dtend = dtend,
                                   ev_mode = detect_mode blob,
                                   ev_scope = detect_scope blob,
                                   ev_url = (if link_of e = [] then None
                                             else Some (link_of e)) \<rparr>))))"

fun main_loop ::
  "string list \<Rightarrow> bool \<Rightarrow> string list \<Rightarrow> event list \<Rightarrow> entry list \<Rightarrow> error + event list" where
  \<comment> \<open>the calendar's events so far, in feed order; an error ends the run\<close>
  "main_loop geo_kw include_national nat_mode_kw cal [] = Inr cal"
| "main_loop geo_kw include_national nat_mode_kw cal (e # es) =
     (case process_entry geo_kw include_national nat_mode_kw e of
        Inl err \<Rightarrow> Inl err
      | Inr None \<Rightarrow> main_loop geo_kw include_national nat_mode_kw cal es
      | Inr (Some ev) \<Rightarrow> main_loop geo_kw include_national nat_mode_kw (cal @ [ev]) es)"

section \<open>Properties of the keyword matcher and the inclusion decider\<close>

lemma str_contains_sublist: "str_contains t k \<longleftrightarrow> sublist k t"
  by (induction t) (simp_all add: sublist_Cons_right)

lemma matches_any_iff:
  "matches_any text ks \<longleftrightarrow> (\<exists>k\<in>set ks. str_contains (py_lower text) (py_lower k))"
  by (induction ks) auto

lemma treni_blob_lower:
  "str_contains (py_lower ''Sciopero nazionale dei treni'') (py_lower ''TRENI'')"
  by code_simp

lemma treni_blob_nazionale:
  "str_contains (py_lower ''Sciopero nazionale dei treni'') ''nazionale''"
  by code_simp

lemma treni_blob_no_geo:
  "\<not> matches_any ''Sciopero nazionale dei treni'' DEFAULT_GEO_KEYWORDS"
  by code_simp

lemma treni_blob_other_rail_terms:
  "\<not> should_include ''Sciopero nazionale dei treni'' DEFAULT_GEO_KEYWORDS True
       [''FERROVI'', ''TRENITALIA'', ''RFI'', ''ITALO'', ''TRENORD'']"
  by code_simp

text \<open>
  Claim C1 says that \<^verbatim>\<open>should_include\<close> is true for the blob
  \<^verbatim>\<open>Sciopero nazionale dei treni\<close> whenever the flag is set and the national-mode keywords
  include a rail term. Of the default rail terms only \<^verbatim>\<open>TRENI\<close> occurs in that blob: with
  the other five as the national-mode keywords the result is false.
\<close>

theorem should_include_rail_term_counterexample:
  "\<not> should_include ''Sciopero nazionale dei treni'' DEFAULT_GEO_KEYWORDS True
       [''FERROVI'', ''TRENITALIA'', ''RFI'', ''ITALO'', ''TRENORD'']"
  by (rule treni_blob_other_rail_terms)

text \<open>
  Claim C1, as the code has it. \<^verbatim>\<open>should_include\<close> is true exactly when the blob matches
  a geographic keyword (case-insensitive substring), or the include-national flag is set,
  the lower-cased blob contains \<^verbatim>\<open>nazionale\<close> and the blob matches a national-mode
  keyword. In particular it is true for the blob \<^verbatim>\<open>Sciopero nazionale dei treni\<close> when the
  flag is set and the national-mode keywords contain a term whose lower-casing occurs in
  the lower-cased blob, such as the rail term \<^verbatim>\<open>TRENI\<close>, although no default geographic
  keyword matches that blob.
\<close>

theorem should_include_iff:
  "(should_include blob geo_kw include_national nat_mode_kw \<longleftrightarrow>
      (\<exists>k\<in>set geo_kw. sublist (py_lower k) (py_lower blob)) \<or>
      (include_national \<and> sublist ''nazionale'' (py_lower blob) \<and>
       (\<exists>k\<in>set nat_mode_kw. sublist (py_lower k) (py_lower blob))))
   \<and> (''TRENI'' \<in> set nat_mode_kw \<longrightarrow>
        should_include ''Sciopero nazionale dei treni'' geo_kw True nat_mode_kw)
   \<and> \<not> matches_any ''Sciopero nazionale dei treni'' DEFAULT_GEO_KEYWORDS
   \<and> (k \<in> set nat_mode_kw
        \<and> sublist (py_lower k) (py_lower ''Sciopero nazionale dei treni'') \<longrightarrow>
        should_include ''Sciopero nazionale dei treni'' geo_kw True nat_mode_kw)"
proof (intro conjI impI)
  show "should_include blob geo_kw include_national nat_mode_kw \<longleftrightarrow>
      (\<exists>k\<in>set geo_kw. sublist (py_lower k) (py_lower blob)) \<or>
      (include_national \<and> sublist ''nazionale'' (py_lower blob) \<and>
       (\<exists>k\<in>set nat_mode_kw. sublist (py_lower k) (py_lower blob)))"
    by (auto simp: should_include_def matches_any_iff str_contains_sublist)
next
  assume "''TRENI'' \<in> set nat_mode_kw"
  then have "matches_any ''Sciopero nazionale dei treni'' nat_mode_kw"
    using treni_blob_lower unfolding matches_any_iff by blast
  then show "should_include ''Sciopero nazionale dei treni'' geo_kw True nat_mode_kw"
    using treni_blob_nazionale by (simp add: should_include_def)
next
  show "\<not> matches_any ''Sciopero nazionale dei treni'' DEFAULT_GEO_KEYWORDS"
    by (rule treni_blob_no_geo)
next
  assume a: "k \<in> set nat_mode_kw
        \<and> sublist (py_lower k) (py_lower ''Sciopero nazionale dei treni'')"
  then have "str_contains (py_lower ''Sciopero nazionale dei treni'') (py_lower k)"
    by (simp only: str_contains_sublist)
  then have "matches_any ''Sciopero nazionale dei treni'' nat_mode_kw"
    unfolding matches_any_iff by (rule bexI) (rule conjunct1 [OF a])
  then show "should_include ''Sciopero nazionale dei treni'' geo_kw True nat_mode_kw"
    using treni_blob_nazionale by (simp add: should_include_def)
qed

theorem should_include_iff_witness:
  "should_include ''Sciopero nazionale dei treni'' DEFAULT_GEO_KEYWORDS True
     DEFAULT_NATIONAL_MODE_KEYWORDS"
proof -
  have mem: "''TRENI'' \<in> set DEFAULT_NATIONAL_MODE_KEYWORDS"
    by (simp add: DEFAULT_NATIONAL_MODE_KEYWORDS_def)
  have "''TRENI'' \<in> set DEFAULT_NATIONAL_MODE_KEYWORDS \<longrightarrow>
        should_include ''Sciopero nazionale dei treni'' DEFAULT_GEO_KEYWORDS True
          DEFAULT_NATIONAL_MODE_KEYWORDS"
    by (rule conjunct1 [OF conjunct2 [OF should_include_iff]])
  then show ?thesis using mem by (rule mp)
qed

lemma py_lower_append: "py_lower (a @ b) = py_lower a @ py_lower b"
  by (simp add: py_lower_def)

lemma py_lower_char_idem: "py_lower_char (py_lower_char c) = py_lower_char c"
  by (auto simp: py_lower_char_def Let_def)

lemma py_lower_idem: "py_lower (py_lower s) = py_lower s"
  by (simp add: py_lower_def py_lower_char_idem)

lemma matches_any_lower_image:
  "matches_any t ks \<longleftrightarrow> (\<exists>x\<in>set (map py_lower ks). str_contains (py_lower t) x)"
  by (simp add: matches_any_iff)

lemma matches_any_cong_lower:
  "py_lower t' = py_lower t \<Longrightarrow> map py_lower ks' = map py_lower ks \<Longrightarrow>
   matches_any t' ks' = matches_any t ks"
  by (simp only: matches_any_lower_image)

lemma of_char_lt_256: "(of_char c :: nat) < 256"
  by (cases c) simp

lemma of_char_eq_numeral:
  assumes "(of_char c :: nat) = of_char d"
  shows "c = d"
  using assms by (simp only: of_char_eq_iff)

lemma py_upper_char_lower:
  assumes "c \<noteq> CHR 0xDF" and "c \<noteq> CHR 0xB5" and "c \<noteq> CHR 0xFF"
  shows "\<exists>x. py_upper_char c = [of_char x] \<and> py_lower_char x = py_lower_char c"
proof -
  have n223: "(of_char c :: nat) \<noteq> 223"
  proof
    assume "(of_char c :: nat) = 223"
    moreover have "(of_char (CHR 0xDF) :: nat) = 223" by simp
    ultimately have "(of_char c :: nat) = of_char (CHR 0xDF)" by simp
    then have "c = CHR 0xDF" by (rule of_char_eq_numeral)
    with assms(1) show False by simp
  qed
  have n181: "(of_char c :: nat) \<noteq> 181"
  proof
    assume "(of_char c :: nat) = 181"
    moreover have "(of_char (CHR 0xB5) :: nat) = 181" by simp
    ultimately have "(of_char c :: nat) = of_char (CHR 0xB5)" by simp
    then have "c = CHR 0xB5" by (rule of_char_eq_numeral)
    with assms(2) show False by simp
  qed
  have n255: "(of_char c :: nat) \<noteq> 255"
  proof
    assume "(of_char c :: nat) = 255"
    moreover have "(of_char (CHR 0xFF) :: nat) = 255" by simp
    ultimately have "(of_char c :: nat) = of_char (CHR 0xFF)" by simp
    then have "c = CHR 0xFF" by (rule of_char_eq_numeral)
    with assms(3) show False by simp
  qed
  show ?thesis
  proof (cases "(97 \<le> (of_char c :: nat) \<and> (of_char c :: nat) \<le> 122)
      \<or> (224 \<le> (of_char c :: nat) \<and> (of_char c :: nat) \<le> 254 \<and> (of_char c :: nat) \<noteq> 247)")
    case True
    let ?x = "char_of ((of_char c :: nat) - 32) :: char"
    have "(of_char c :: nat) - 32 < 256"
      using of_char_lt_256 [of c] by linarith
    then have m: "((of_char c :: nat) - 32) mod 256 = of_char c - 32"
      by (rule mod_less)
    have ox: "(of_char ?x :: nat) = of_char c - 32"
      by (simp add: m)
    have "py_upper_char c = [of_char ?x]"
      using True by (simp add: py_upper_char_def Let_def m)
    moreover have "py_lower_char ?x = py_lower_char c"
      using True by (auto simp: py_lower_char_def Let_def m)
    ultimately show ?thesis by blast
  next
    case False
    then have "py_upper_char c = [of_char c]"
      using n223 n181 n255 by (auto simp: py_upper_char_def Let_def)
    then show ?thesis by blast
  qed
qed

lemma py_upper_lower:
  assumes "py_upper t = code_points u"
    and "CHR 0xDF \<notin> set t" and "CHR 0xB5 \<notin> set t" and "CHR 0xFF \<notin> set t"
  shows "py_lower u = py_lower t"
  using assms
proof (induction t arbitrary: u)
  case Nil
  then show ?case by (simp add: py_upper_def code_points_def)
next
  case (Cons c t)
  from Cons.prems(2-4) have "c \<noteq> CHR 0xDF" "c \<noteq> CHR 0xB5" "c \<noteq> CHR 0xFF" by auto
  then obtain x where x: "py_upper_char c = [of_char x]" "py_lower_char x = py_lower_char c"
    using py_upper_char_lower by blast
  from Cons.prems(1) x(1) have "of_char x # py_upper t = map of_char u"
    by (simp add: py_upper_def code_points_def)
  then obtain x' u' where u: "u = x' # u'" "(of_char x' :: nat) = of_char x"
    "py_upper t = code_points u'"
    by (cases u) (auto simp: code_points_def)
  from u(2) have "x' = x" by (rule of_char_eq_numeral)
  moreover have "py_lower u' = py_lower t"
    using u(3) Cons.prems(2-4) by (intro Cons.IH) auto
  ultimately show ?case
    using x(2) u(1) by (simp add: py_lower_def)
qed

lemma strasse_upper:
  "py_upper (''Stra'' @ [CHR 0xDF] @ ''e'') = code_points ''STRASSE''"
  by code_simp

lemma micro_upper: "py_upper [CHR 0xB5] = [924]"
  by code_simp

lemma py_upper_in_range:
  assumes "CHR 0xDF \<notin> set t" and "CHR 0xB5 \<notin> set t" and "CHR 0xFF \<notin> set t"
  shows "\<exists>u. py_upper t = code_points u"
  using assms
proof (induction t)
  case Nil
  have "py_upper [] = code_points []" by (simp add: py_upper_def code_points_def)
  then show ?case by blast
next
  case (Cons c t)
  from Cons.prems have "c \<noteq> CHR 0xDF" "c \<noteq> CHR 0xB5" "c \<noteq> CHR 0xFF" by auto
  then obtain x where x: "py_upper_char c = [of_char x]"
    using py_upper_char_lower by blast
  from Cons obtain u where "py_upper t = code_points u" by auto
  with x have "py_upper (c # t) = code_points (x # u)"
    by (simp add: py_upper_def code_points_def)
  then show ?case by blast
qed

lemma strasse_match: "matches_any (''Stra'' @ [CHR 0xDF] @ ''e'') [''stra'' @ [CHR 0xDF] @ ''e'']"
  by code_simp

lemma strasse_no_match: "\<not> matches_any ''STRASSE'' [''stra'' @ [CHR 0xDF] @ ''e'']"
  by code_simp

lemma latin1_upper_out_of_range: "py_upper [CHR 0xB5] = [924] \<and> py_upper [CHR 0xFF] = [376]"
  by code_simp

text \<open>
  Claim C8 says that \<^verbatim>\<open>matches_any\<close> is invariant under every change of letter case of
  the text or of a keyword. It fails where upper-casing is not undone by lower-casing: the
  upper case of the sharp s is SS, whose lower case is ss. The text \<^verbatim>\<open>Stra\<close>U+00DF\<^verbatim>\<open>e\<close>
  matches the keyword \<^verbatim>\<open>stra\<close>U+00DF\<^verbatim>\<open>e\<close>, its upper-casing \<^verbatim>\<open>STRASSE\<close> does not.
\<close>

theorem matches_any_case_counterexample:
  "py_upper (''Stra'' @ [CHR 0xDF] @ ''e'') = code_points ''STRASSE''
   \<and> matches_any (''Stra'' @ [CHR 0xDF] @ ''e'') [''stra'' @ [CHR 0xDF] @ ''e'']
   \<and> \<not> matches_any ''STRASSE'' [''stra'' @ [CHR 0xDF] @ ''e'']"
  by (intro conjI strasse_upper strasse_match strasse_no_match)

text \<open>
  Claim C8, as the code has it. \<^verbatim>\<open>matches_any\<close> depends on the text and on the keywords
  only through their lower-casings: texts with equal lower-casings and keyword lists with
  equal lower-casings give the same result. So the result is invariant under lower-casing
  the text or the keywords. Among the strings of code points up to U+00FF it is invariant
  under upper-casing a text or keywords that contain none of the sharp s U+00DF, the
  micro sign U+00B5 and U+00FF; every such string has its upper-casing in that range. The
  upper-casings of U+00B5 and U+00FF are U+039C and U+0178, beyond the range, and nothing
  is stated about them.
\<close>

theorem matches_any_case_insensitive:
  "(py_lower t' = py_lower t \<and> map py_lower ks' = map py_lower ks \<longrightarrow>
      matches_any t' ks' = matches_any t ks)
   \<and> matches_any (py_lower t) ks = matches_any t ks
   \<and> matches_any t (map py_lower ks) = matches_any t ks
   \<and> (CHR 0xDF \<notin> set t \<and> CHR 0xB5 \<notin> set t \<and> CHR 0xFF \<notin> set t \<longrightarrow>
        (\<exists>u. py_upper t = code_points u))
   \<and> (py_upper t = code_points u
        \<and> CHR 0xDF \<notin> set t \<and> CHR 0xB5 \<notin> set t \<and> CHR 0xFF \<notin> set t \<longrightarrow>
        matches_any u ks = matches_any t ks)
   \<and> (list_all2 (\<lambda>k v. py_upper k = code_points v
          \<and> CHR 0xDF \<notin> set k \<and> CHR 0xB5 \<notin> set k \<and> CHR 0xFF \<notin> set k) ks us \<longrightarrow>
        matches_any t us = matches_any t ks)
   \<and> py_upper [CHR 0xB5] = [924] \<and> py_upper [CHR 0xFF] = [376]"
proof (intro conjI impI)
  assume "py_lower t' = py_lower t \<and> map py_lower ks' = map py_lower ks"
  then show "matches_any t' ks' = matches_any t ks"
    by (intro matches_any_cong_lower) (erule conjunct1, erule conjunct2)
next
  show "matches_any (py_lower t) ks = matches_any t ks"
    by (rule matches_any_cong_lower) (simp_all add: py_lower_idem)
next
  have "map py_lower (map py_lower ks) = map py_lower ks"
    by (simp add: py_lower_idem)
  then show "matches_any t (map py_lower ks) = matches_any t ks"
    by (intro matches_any_cong_lower) simp_all
next
  assume "CHR 0xDF \<notin> set t \<and> CHR 0xB5 \<notin> set t \<and> CHR 0xFF \<notin> set t"
  then show "\<exists>u. py_upper t = code_points u"
    by (intro py_upper_in_range) simp_all
next
  assume "py_upper t = code_points u
        \<and> CHR 0xDF \<notin> set t \<and> CHR 0xB5 \<notin> set t \<and> CHR 0xFF \<notin> set t"
  then have "py_lower u = py_lower t"
    by (intro py_upper_lower) simp_all
  then show "matches_any u ks = matches_any t ks"
    by (intro matches_any_cong_lower) simp_all
next
  assume "list_all2 (\<lambda>k v. py_upper k = code_points v
          \<and> CHR 0xDF \<notin> set k \<and> CHR 0xB5 \<notin> set k \<and> CHR 0xFF \<notin> set k) ks us"
  then have "map py_lower us = map py_lower ks"
  proof (induction rule: list_all2_induct)
    case Nil
    show ?case by simp
  next
    case (Cons k ks v us)
    have "py_lower v = py_lower k"
      using Cons.hyps(1) by (intro py_upper_lower) simp_all
    with Cons.IH show ?case by simp
  qed
  then show "matches_any t us = matches_any t ks"
    by (intro matches_any_cong_lower) simp_all
next
  show "py_upper [CHR 0xB5] = [924]"
    by (rule conjunct1 [OF latin1_upper_out_of_range])
next
  show "py_upper [CHR 0xFF] = [376]"
    by (rule conjunct2 [OF latin1_upper_out_of_range])
qed

theorem matches_any_case_insensitive_witness:
  "matches_any ''SCIOPERO A MILANO'' [''milano''] = matches_any ''Sciopero a Milano'' [''milano'']
   \<and> matches_any ''Sciopero a Milano'' [''milano'']"
proof -
  let ?t = "''Sciopero a Milano''" and ?u = "''SCIOPERO A MILANO''"
  have h: "py_upper ?t = code_points ?u
      \<and> CHR 0xDF \<notin> set ?t \<and> CHR 0xB5 \<notin> set ?t \<and> CHR 0xFF \<notin> set ?t"
    by code_simp
  have m: "matches_any ?t [''milano'']" by code_simp
  have "py_upper ?t = code_points ?u
      \<and> CHR 0xDF \<notin> set ?t \<and> CHR 0xB5 \<notin> set ?t \<and> CHR 0xFF \<notin> set ?t \<longrightarrow>
      matches_any ?u [''milano''] = matches_any ?t [''milano'']"
    by (rule conjunct1 [OF conjunct2 [OF conjunct2 [OF conjunct2 [OF conjunct2
        [OF matches_any_case_insensitive]]]]])
  then have "matches_any ?u [''milano''] = matches_any ?t [''milano'']"
    using h by (rule mp)
  then show ?thesis using m by (rule conjI)
qed

lemma mi_in_geo: "''MI'' \<in> set DEFAULT_GEO_KEYWORDS"
  by (simp add: DEFAULT_GEO_KEYWORDS_def)

lemma mi_lower: "py_lower ''MI'' = ''mi''"
  by code_simp

lemma host_has_mi: "str_contains (py_lower ''scioperi.mit.gov.it'') ''mi''"
  by code_simp

lemma should_include_mi:
  assumes "str_contains (py_lower blob) ''mi''"
  shows "should_include blob DEFAULT_GEO_KEYWORDS include_national nat_mode_kw"
proof -
  have "str_contains (py_lower blob) (py_lower ''MI'')"
    using assms by (simp only: mi_lower)
  then have "matches_any blob DEFAULT_GEO_KEYWORDS"
    unfolding matches_any_iff by (rule bexI) (rule mi_in_geo)
  then show ?thesis
    by (simp add: should_include_def)
qed

lemma host_blob_has_mi:
  "str_contains (py_lower (make_blob title summary (pre @ ''scioperi.mit.gov.it'' @ post))) ''mi''"
proof -
  have "sublist ''mi'' (py_lower ''scioperi.mit.gov.it'')"
    using host_has_mi by (simp only: str_contains_sublist)
  moreover have "sublist (py_lower ''scioperi.mit.gov.it'')
      (py_lower (title @ [CHR 0x0A] @ summary @ [CHR 0x0A] @ pre)
        @ py_lower ''scioperi.mit.gov.it'' @ py_lower post)"
    by (rule sublist_appendI)
  ultimately have "sublist ''mi''
      (py_lower (title @ [CHR 0x0A] @ summary @ [CHR 0x0A] @ pre)
        @ py_lower ''scioperi.mit.gov.it'' @ py_lower post)"
    by (rule sublist_order.order.trans)
  moreover have "py_lower (make_blob title summary (pre @ ''scioperi.mit.gov.it'' @ post))
      = py_lower (title @ [CHR 0x0A] @ summary @ [CHR 0x0A] @ pre)
        @ py_lower ''scioperi.mit.gov.it'' @ py_lower post"
    by (simp only: make_blob_def py_lower_append append_assoc)
  ultimately show ?thesis
    by (simp only: str_contains_sublist)
qed

text \<open>
  Claim C9. With the default geographic keywords, which contain the two-letter entry
  \<^verbatim>\<open>MI\<close>, \<^verbatim>\<open>should_include\<close> is true for every blob whose lower-casing contains
  \<^verbatim>\<open>mi\<close>, whatever the flag and the national-mode keywords are. Every blob built from a
  link that contains the default feed host \<^verbatim>\<open>scioperi.mit.gov.it\<close> is such a blob.
\<close>

theorem default_geo_mi_includes:
  "(str_contains (py_lower blob) ''mi'' \<longrightarrow>
      should_include blob DEFAULT_GEO_KEYWORDS include_national nat_mode_kw)
   \<and> should_include (make_blob title summary (pre @ ''scioperi.mit.gov.it'' @ post))
        DEFAULT_GEO_KEYWORDS include_national nat_mode_kw"
proof (intro conjI impI)
  assume "str_contains (py_lower blob) ''mi''"
  then show "should_include blob DEFAULT_GEO_KEYWORDS include_national nat_mode_kw"
    by (rule should_include_mi)
next
  show "should_include (make_blob title summary (pre @ ''scioperi.mit.gov.it'' @ post))
        DEFAULT_GEO_KEYWORDS include_national nat_mode_kw"
    using host_blob_has_mi by (rule should_include_mi)
qed

lemma roma_blob_has_mi: "str_contains (py_lower ''Sciopero a Roma: comitato unitario'') ''mi''"
  by code_simp

theorem default_geo_mi_includes_witness:
  "should_include ''Sciopero a Roma: comitato unitario'' DEFAULT_GEO_KEYWORDS False []"
proof -
  have "str_contains (py_lower ''Sciopero a Roma: comitato unitario'') ''mi'' \<longrightarrow>
      should_include ''Sciopero a Roma: comitato unitario'' DEFAULT_GEO_KEYWORDS False []"
    by (rule conjunct1 [OF default_geo_mi_includes])
  then show ?thesis using roma_blob_has_mi by (rule mp)
qed

section \<open>Properties of the identifier generator\<close>

lemma sha1_vector_abc:
  "sha1_hexdigest (utf8_encode ''abc'') = ''a9993e364706816aba3e25717850c26c9cd0d89d''"
  by code_simp

lemma make_uid_vector:
  "make_uid (''https://scioperi.mit.gov.it/a?b='' @ [CHR 0xE0])
     ''Sciopero Trenitalia 05/03/2024 Milano''
   = ''mit-strike-4cc6e3ab7a53bc2e58fad9fca1a69dcc0180245b@milan''"
  by code_simp

lemma sha1_state_cases:
  obtains h0 h1 h2 h3 h4 where
    "foldl sha1_block (0x67452301, 0xEFCDAB89, 0x98BADCFE, 0x10325476, 0xC3D2E1F0)
       (sha1_blocks (sha1_pad msg)) = (h0, h1, h2, h3, h4)"
  by (rule prod_cases5)

lemma length_sha1: "length (sha1 msg) = 5"
  by (rule sha1_state_cases [of msg]) (simp add: sha1_def)

lemma length_hex32: "length (hex32 w) = 8"
  by (simp add: hex32_def)

lemma length_sha1_hexdigest: "length (sha1_hexdigest msg) = 40"
  by (rule sha1_state_cases [of msg]) (simp add: sha1_def sha1_hexdigest_def length_hex32)

lemma hex_digit_range: "hex_digit n \<in> set ''0123456789abcdef''"
  unfolding hex_digit_def by (rule nth_mem) simp

lemma hex32_range: "set (hex32 w) \<subseteq> set ''0123456789abcdef''"
  unfolding hex32_def using hex_digit_range by (auto simp del: set_simps)

lemma sha1_hexdigest_range: "set (sha1_hexdigest msg) \<subseteq> set ''0123456789abcdef''"
  unfolding sha1_hexdigest_def using hex32_range by (auto simp del: set_simps)

lemma make_uid_eq:
  "make_uid link title
     = ''mit-strike-'' @ sha1_hexdigest (utf8_encode (link @ ''|'' @ title)) @ ''@milan''"
  by (simp add: make_uid_def)

lemma length_make_uid: "length (make_uid link title) = 57"
  by (simp add: make_uid_def length_sha1_hexdigest)

text \<open>
  Claim C5. For every link and title \<^verbatim>\<open>make_uid\<close> is the prefix \<^verbatim>\<open>mit-strike-\<close>, the SHA-1
  hex digest of the UTF-8 encoding of link, \<^verbatim>\<open>|\<close> and title, and the suffix \<^verbatim>\<open>@milan\<close>.
  The digest has five 32-bit words, written as 40 lower-case hexadecimal digits, so an
  identifier has 57 characters. \<^verbatim>\<open>make_uid\<close> is a function of the pair alone: equal pairs
  give equal identifiers. The last two parts check the model of SHA-1 against the digest
  of \<^verbatim>\<open>abc\<close> in FIPS 180 and against \<^verbatim>\<open>hashlib\<close> on a message of two blocks with a
  two-byte character.
\<close>

theorem make_uid_sha1:
  "make_uid link title
     = ''mit-strike-'' @ sha1_hexdigest (utf8_encode (link @ ''|'' @ title)) @ ''@milan''
   \<and> length (sha1 msg) = 5
   \<and> length (sha1_hexdigest msg) = 40
   \<and> set (sha1_hexdigest msg) \<subseteq> set ''0123456789abcdef''
   \<and> length (make_uid link title) = 57
   \<and> sha1_hexdigest (utf8_encode ''abc'') = ''a9993e364706816aba3e25717850c26c9cd0d89d''
   \<and> make_uid (''https://scioperi.mit.gov.it/a?b='' @ [CHR 0xE0])
        ''Sciopero Trenitalia 05/03/2024 Milano''
      = ''mit-strike-4cc6e3ab7a53bc2e58fad9fca1a69dcc0180245b@milan''"
  by (intro conjI make_uid_eq length_sha1 length_sha1_hexdigest sha1_hexdigest_range
      length_make_uid sha1_vector_abc make_uid_vector)

lemma uid_assoc: "make_uid (a @ ''|'' @ b) c = make_uid a (b @ ''|'' @ c)"
  by (simp add: make_uid_def)

text \<open>
  Claim C10. The string that \<^verbatim>\<open>make_uid\<close> hashes does not determine the pair it was built
  from: moving a \<^verbatim>\<open>|\<close> from the end of the link to the start of the title leaves it
  unchanged. The distinct pairs (\<^verbatim>\<open>x|y\<close>, \<^verbatim>\<open>z\<close>) and (\<^verbatim>\<open>x\<close>, \<^verbatim>\<open>y|z\<close>) get the same
  identifier.
\<close>

theorem make_uid_not_injective:
  "make_uid (a @ ''|'' @ b) c = make_uid a (b @ ''|'' @ c)
   \<and> (''x|y'', ''z'') \<noteq> (''x'', ''y|z'')
   \<and> make_uid ''x|y'' ''z'' = make_uid ''x'' ''y|z''"
proof (intro conjI)
  show "make_uid (a @ ''|'' @ b) c = make_uid a (b @ ''|'' @ c)"
    by (rule uid_assoc)
  show "(''x|y'', ''z'') \<noteq> (''x'', ''y|z'')"
    by simp
  show "make_uid ''x|y'' ''z'' = make_uid ''x'' ''y|z''"
    using uid_assoc [of "''x''" "''y''" "''z''"] by simp
qed

section \<open>Properties of the date extractor\<close>

lemma date_new_error: "date_new y m d = Inl e \<Longrightarrow> e = ValueError"
  by (simp add: date_new_def split: if_splits)

lemma date_new_valid: "date_new y m d = Inr dt \<Longrightarrow> valid_date dt"
  by (auto simp: date_new_def valid_date_def split: if_splits)

lemma match_date_error: "match_date pat m = Inl e \<Longrightarrow> e = ValueError"
  by (simp add: match_date_def Let_def date_new_error)

lemma scan_matches_result:
  "\<exists>new. scan_matches pat found ms = Inr (found @ new)
     \<and> set new = {dt. \<exists>m\<in>set ms. match_date pat m = Inr dt}"
proof (induction ms arbitrary: found)
  case Nil
  show ?case by simp
next
  case (Cons m ms)
  show ?case
  proof (cases "match_date pat m")
    case (Inl e)
    then have e: "e = ValueError" by (rule match_date_error)
    from Cons.IH [of found] obtain new where
      "scan_matches pat found ms = Inr (found @ new)"
      "set new = {dt. \<exists>m\<in>set ms. match_date pat m = Inr dt}" by blast
    with Inl e show ?thesis by auto
  next
    case (Inr dt)
    from Cons.IH [of "found @ [dt]"] obtain new where
      "scan_matches pat (found @ [dt]) ms = Inr ((found @ [dt]) @ new)"
      "set new = {dt. \<exists>m\<in>set ms. match_date pat m = Inr dt}" by blast
    with Inr have "scan_matches pat found (m # ms) = Inr (found @ (dt # new))
      \<and> set (dt # new) = {dt. \<exists>m\<in>set (m # ms). match_date pat m = Inr dt}"
      by auto
    then show ?thesis by blast
  qed
qed

lemma scan_patterns_result:
  "\<exists>new. scan_patterns text found pats = Inr (found @ new)
     \<and> set new = {dt. \<exists>pat\<in>set pats. \<exists>m\<in>set (finditer (pat_items pat) text).
                      match_date pat m = Inr dt}"
proof (induction pats arbitrary: found)
  case Nil
  show ?case by simp
next
  case (Cons pat pats)
  from scan_matches_result [of pat found "finditer (pat_items pat) text"] obtain n1 where
    n1: "scan_matches pat found (finditer (pat_items pat) text) = Inr (found @ n1)"
      "set n1 = {dt. \<exists>m\<in>set (finditer (pat_items pat) text). match_date pat m = Inr dt}"
    by blast
  from Cons.IH [of "found @ n1"] obtain n2 where
    n2: "scan_patterns text (found @ n1) pats = Inr ((found @ n1) @ n2)"
      "set n2 = {dt. \<exists>pat\<in>set pats. \<exists>m\<in>set (finditer (pat_items pat) text).
                      match_date pat m = Inr dt}"
    by blast
  have "scan_patterns text found (pat # pats) = Inr (found @ (n1 @ n2))"
    using n1(1) n2(1) by simp
  moreover have "set (n1 @ n2) = {dt. \<exists>pat\<in>set (pat # pats).
      \<exists>m\<in>set (finditer (pat_items pat) text). match_date pat m = Inr dt}"
    using n1(2) n2(2) by auto
  ultimately show ?case by blast
qed

lemma extract_dates_result:
  "\<exists>ds. extract_dates text = Inr ds
     \<and> set ds = {dt. \<exists>pat\<in>set DATE_PATTERNS. \<exists>m\<in>set (finditer (pat_items pat) text).
                     match_date pat m = Inr dt}
     \<and> sorted_wrt (<) ds"
proof -
  from scan_patterns_result [of "text" "[]" DATE_PATTERNS] obtain new where
    new: "scan_patterns text [] DATE_PATTERNS = Inr new"
      "set new = {dt. \<exists>pat\<in>set DATE_PATTERNS. \<exists>m\<in>set (finditer (pat_items pat) text).
                     match_date pat m = Inr dt}"
    by auto
  have "extract_dates text = Inr (sorted_list_of_set (set new))"
    using new(1) by (simp add: extract_dates_def)
  moreover have "set (sorted_list_of_set (set new)) = set new"
    by simp
  moreover have "sorted_wrt (<) (sorted_list_of_set (set new))"
    by (rule strict_sorted_list_of_set)
  ultimately show ?thesis using new(2) by auto
qed

lemma match_date_valid: "match_date pat m = Inr dt \<Longrightarrow> valid_date dt"
  by (simp add: match_date_def Let_def date_new_valid)

lemma first_some_None: "(\<And>x. x \<in> set xs \<Longrightarrow> f x = None) \<Longrightarrow> first_some f xs = None"
  by (induction xs) simp_all

lemma match_items_no_digit:
  assumes "\<not> in_cls Digit c"
  shows "match_items (Rep Digit (Suc lo) hi # ps) (c # s) = None"
proof -
  have "\<And>n. n \<in> set (rev [Suc lo..<Suc hi]) \<Longrightarrow>
      \<not> (n \<le> length (c # s) \<and> list_all (in_cls Digit) (take n (c # s)))"
  proof -
    fix n assume "n \<in> set (rev [Suc lo..<Suc hi])"
    then have "0 < n" by (simp del: upt_Suc)
    then obtain k where "n = Suc k" by (cases n) simp_all
    with assms show "\<not> (n \<le> length (c # s) \<and> list_all (in_cls Digit) (take n (c # s)))"
      by auto
  qed
  then show ?thesis
    unfolding match_items.simps by (intro first_some_None) (simp only: if_False)
qed

lemma finditer_skip:
  assumes "\<forall>c\<in>set pre. \<not> in_cls Digit c"
  shows "finditer (Rep Digit (Suc lo) hi # ps) (pre @ s) = finditer (Rep Digit (Suc lo) hi # ps) s"
  using assms
proof (induction pre)
  case Nil
  show ?case by simp
next
  case (Cons c pre)
  then have "match_items (Rep Digit (Suc lo) hi # ps) (c # pre @ s) = None"
    by (intro match_items_no_digit) simp
  then have "finditer (Rep Digit (Suc lo) hi # ps) ((c # pre) @ s)
      = finditer (Rep Digit (Suc lo) hi # ps) (pre @ s)"
    by (subst finditer.simps) simp
  with Cons show ?case by simp
qed

lemma match_dmy:
  "match_items [Rep Digit 1 2, Rep Sep 1 1, Rep Digit 1 2, Rep Sep 1 1, Rep Digit 4 4]
     (''05/03/2024'' @ post) = Some ([''05'', ''/'', ''03'', ''/'', ''2024''], post)"
  by (simp add: upt_rec)

lemma match_ymd:
  "match_items [Rep Digit 4 4, Rep Sep 1 1, Rep Digit 1 2, Rep Sep 1 1, Rep Digit 1 2]
     (''2024-03-05'' @ post) = Some ([''2024'', ''-'', ''03'', ''-'', ''05''], post)"
  by (simp add: upt_rec)


lemma dmy_in_patterns:
  "Pattern [Rep Digit 1 2, Rep Sep 1 1, Rep Digit 1 2, Rep Sep 1 1, Rep Digit 4 4] 4 2 0
     \<in> set DATE_PATTERNS"
  by (simp add: DATE_PATTERNS_def)

lemma ymd_in_patterns:
  "Pattern [Rep Digit 4 4, Rep Sep 1 1, Rep Digit 1 2, Rep Sep 1 1, Rep Digit 1 2] 0 2 4
     \<in> set DATE_PATTERNS"
  by (simp add: DATE_PATTERNS_def)

lemma dmy_date:
  "match_date
     (Pattern [Rep Digit 1 2, Rep Sep 1 1, Rep Digit 1 2, Rep Sep 1 1, Rep Digit 4 4] 4 2 0)
     [''05'', ''/'', ''03'', ''/'', ''2024''] = Inr (Date 2024 3 5)"
  by code_simp

lemma ymd_date:
  "match_date
     (Pattern [Rep Digit 4 4, Rep Sep 1 1, Rep Digit 1 2, Rep Sep 1 1, Rep Digit 1 2] 0 2 4)
     [''2024'', ''-'', ''03'', ''-'', ''05''] = Inr (Date 2024 3 5)"
  by code_simp

lemma finditer_hit:
  assumes "match_items ps s = Some (caps, rest)"
  shows "caps \<in> set (finditer ps s)"
  by (subst finditer.simps) (simp add: assms)

lemma extract_dates_dmy:
  assumes "\<forall>c\<in>set pre. \<not> in_cls Digit c"
  shows "\<exists>ds. extract_dates (pre @ ''05/03/2024'' @ post) = Inr ds \<and> Date 2024 3 5 \<in> set ds"
proof -
  let ?p = "Pattern [Rep Digit 1 2, Rep Sep 1 1, Rep Digit 1 2, Rep Sep 1 1, Rep Digit 4 4] 4 2 0"
  let ?m = "[''05'', ''/'', ''03'', ''/'', ''2024'']"
  have "finditer (pat_items ?p) (pre @ ''05/03/2024'' @ post)
      = finditer (pat_items ?p) (''05/03/2024'' @ post)"
    unfolding pattern.sel One_nat_def using assms by (rule finditer_skip)
  moreover have "?m \<in> set (finditer (pat_items ?p) (''05/03/2024'' @ post))"
    unfolding pattern.sel by (rule finditer_hit) (rule match_dmy)
  ultimately have "?m \<in> set (finditer (pat_items ?p) (pre @ ''05/03/2024'' @ post))"
    by simp
  with dmy_in_patterns dmy_date
  have "Date 2024 3 5 \<in> {dt. \<exists>pat\<in>set DATE_PATTERNS.
      \<exists>m\<in>set (finditer (pat_items pat) (pre @ ''05/03/2024'' @ post)).
        match_date pat m = Inr dt}"
    by blast
  with extract_dates_result [of "pre @ ''05/03/2024'' @ post"] show ?thesis
    by auto
qed

lemma extract_dates_ymd:
  assumes "\<forall>c\<in>set pre. \<not> in_cls Digit c"
  shows "\<exists>ds. extract_dates (pre @ ''2024-03-05'' @ post) = Inr ds \<and> Date 2024 3 5 \<in> set ds"
proof -
  let ?p = "Pattern [Rep Digit 4 4, Rep Sep 1 1, Rep Digit 1 2, Rep Sep 1 1, Rep Digit 1 2] 0 2 4"
  let ?m = "[''2024'', ''-'', ''03'', ''-'', ''05'']"
  have "finditer (Rep Digit (Suc 3) 4 # [Rep Sep 1 1, Rep Digit 1 2, Rep Sep 1 1, Rep Digit 1 2])
          (pre @ ''2024-03-05'' @ post)
      = finditer (Rep Digit (Suc 3) 4 # [Rep Sep 1 1, Rep Digit 1 2, Rep Sep 1 1, Rep Digit 1 2])
          (''2024-03-05'' @ post)"
    using assms by (rule finditer_skip)
  then have "finditer (pat_items ?p) (pre @ ''2024-03-05'' @ post)
      = finditer (pat_items ?p) (''2024-03-05'' @ post)"
    by (simp add: eval_nat_numeral)
  moreover have "?m \<in> set (finditer (pat_items ?p) (''2024-03-05'' @ post))"
    unfolding pattern.sel by (rule finditer_hit) (rule match_ymd)
  ultimately have "?m \<in> set (finditer (pat_items ?p) (pre @ ''2024-03-05'' @ post))"
    by simp
  with ymd_in_patterns ymd_date
  have "Date 2024 3 5 \<in> {dt. \<exists>pat\<in>set DATE_PATTERNS.
      \<exists>m\<in>set (finditer (pat_items pat) (pre @ ''2024-03-05'' @ post)).
        match_date pat m = Inr dt}"
    by blast
  with extract_dates_result [of "pre @ ''2024-03-05'' @ post"] show ?thesis
    by auto
qed

lemma first_some_Some: "first_some f xs = Some y \<Longrightarrow> \<exists>x\<in>set xs. f x = Some y"
  by (induction xs) (auto split: option.splits)

lemma match_items_step:
  assumes "match_items (Rep cl lo hi # ps) s = Some (caps, rest)"
  obtains n caps' where "lo \<le> n" "n \<le> hi" "n \<le> length s" "list_all (in_cls cl) (take n s)"
    "match_items ps (drop n s) = Some (caps', rest)" "caps = take n s # caps'"
proof -
  from assms obtain n where n: "n \<in> set (rev [lo..<Suc hi])"
    "(if n \<le> length s \<and> list_all (in_cls cl) (take n s)
      then (case match_items ps (drop n s) of
              None \<Rightarrow> None
            | Some (caps, rest) \<Rightarrow> Some (take n s # caps, rest))
      else None) = Some (caps, rest)"
    unfolding match_items.simps by (blast dest: first_some_Some)
  from n(2) have c: "n \<le> length s" "list_all (in_cls cl) (take n s)"
    by (auto split: if_splits)
  with n(2) obtain caps' where "match_items ps (drop n s) = Some (caps', rest)"
    "caps = take n s # caps'"
    by (auto split: option.splits)
  moreover from n(1) have "lo \<le> n" "n \<le> hi" by (auto simp del: upt_Suc)
  ultimately show ?thesis using c that by blast
qed

lemma match_items_cross:
  assumes "\<forall>cl lo hi. Rep cl lo hi \<in> set ps \<longrightarrow> in_cls cl c \<longrightarrow> hi \<le> 1"
    and "match_items ps (u @ c # t) = Some (caps, rest)"
  shows "(\<exists>w. rest = w @ c # t)
     \<or> (\<exists>qs cl lo hi ps'. ps = qs @ Rep cl lo hi # ps' \<and> in_cls cl c
            \<and> match_items ps' t \<noteq> None)"
  using assms
proof (induction ps arbitrary: u caps)
  case Nil
  then have "rest = u @ c # t" by simp
  then show ?case by blast
next
  case (Cons item ps)
  obtain cl lo hi where item: "item = Rep cl lo hi" by (cases item)
  from Cons.prems(2) [unfolded item] obtain n caps' where
    n: "n \<le> hi" "n \<le> length (u @ c # t)" "list_all (in_cls cl) (take n (u @ c # t))"
      "match_items ps (drop n (u @ c # t)) = Some (caps', rest)"
    by (rule match_items_step)
  show ?case
  proof (cases "n \<le> length u")
    case True
    then have "drop n (u @ c # t) = drop n u @ c # t" by simp
    with n(4) have m: "match_items ps (drop n u @ c # t) = Some (caps', rest)" by simp
    have "\<forall>cl lo hi. Rep cl lo hi \<in> set ps \<longrightarrow> in_cls cl c \<longrightarrow> hi \<le> 1"
      using Cons.prems(1) by auto
    from Cons.IH [OF this m] show ?thesis
    proof
      assume "\<exists>w. rest = w @ c # t"
      then show ?thesis by blast
    next
      assume "\<exists>qs cl lo hi ps'. ps = qs @ Rep cl lo hi # ps' \<and> in_cls cl c
            \<and> match_items ps' t \<noteq> None"
      then obtain qs cl' lo' hi' ps' where "ps = qs @ Rep cl' lo' hi' # ps'" "in_cls cl' c"
        "match_items ps' t \<noteq> None" by blast
      then have "item # ps = (item # qs) @ Rep cl' lo' hi' # ps' \<and> in_cls cl' c
            \<and> match_items ps' t \<noteq> None" by simp
      then show ?thesis by blast
    qed
  next
    case False
    then have "length u < n" by simp
    then have "take n (u @ c # t) = u @ take (n - length u) (c # t)" "0 < n - length u"
      by simp_all
    then have "c \<in> set (take n (u @ c # t))"
      by (cases "n - length u") simp_all
    with n(3) have "in_cls cl c" by (simp add: list_all_iff)
    with Cons.prems(1) item have "hi \<le> 1" by auto
    with n(1) \<open>length u < n\<close> have "n = 1" "length u = 0" by linarith+
    then have "n = 1" "u = []" by simp_all
    with n(4) have "match_items ps t \<noteq> None" by simp
    with item \<open>in_cls cl c\<close> have "item # ps = [] @ Rep cl lo hi # ps \<and> in_cls cl c
            \<and> match_items ps t \<noteq> None" by simp
    then show ?thesis by blast
  qed
qed

lemma finditer_boundary:
  assumes cross: "\<And>u caps rest. match_items ps (u @ c # t) = Some (caps, rest) \<Longrightarrow>
      \<exists>w. rest = w @ c # t"
  shows "set (finditer ps t) \<subseteq> set (finditer ps (u @ c # t))"
proof (induction "length u" arbitrary: u rule: less_induct)
  case less
  have tail: "set (finditer ps t)
      \<subseteq> set (case u @ c # t of [] \<Rightarrow> [] | _ # s' \<Rightarrow> finditer ps s')"
  proof (cases u)
    case Nil
    then show ?thesis by simp
  next
    case (Cons a u')
    then have "length u' < length u" by simp
    from less [OF this] Cons show ?thesis by simp
  qed
  show ?case
  proof (cases "match_items ps (u @ c # t)")
    case None
    then have "finditer ps (u @ c # t)
        = (case u @ c # t of [] \<Rightarrow> [] | _ # s' \<Rightarrow> finditer ps s')"
      by (subst finditer.simps) simp
    with tail show ?thesis by simp
  next
    case (Some r)
    obtain caps rest where r: "r = (caps, rest)" by (cases r)
    from cross [OF Some [unfolded r]] obtain w where w: "rest = w @ c # t" by blast
    show ?thesis
    proof (cases "length rest < length (u @ c # t)")
      case True
      then have "finditer ps (u @ c # t) = caps # finditer ps rest"
        using Some r by (subst finditer.simps) simp
      moreover have "length w < length u" using True w by simp
      then have "set (finditer ps t) \<subseteq> set (finditer ps (w @ c # t))" by (rule less)
      ultimately show ?thesis using w by auto
    next
      case False
      then have "finditer ps (u @ c # t)
          = caps # (case u @ c # t of [] \<Rightarrow> [] | _ # s' \<Rightarrow> finditer ps s')"
        using Some r by (subst finditer.simps) simp
      with tail show ?thesis by auto
    qed
  qed
qed

lemma dmy_tails_fail:
  "match_items [Rep Digit 1 2, Rep Sep 1 1, Rep Digit 4 4] (''05/03/2024'' @ post) = None"
  "match_items [Rep Digit 4 4] (''05/03/2024'' @ post) = None"
  by (simp_all add: upt_rec)

lemma dmy_cross:
  assumes "\<not> in_cls Digit c"
    and "match_items [Rep Digit 1 2, Rep Sep 1 1, Rep Digit 1 2, Rep Sep 1 1, Rep Digit 4 4]
           (u @ c # ''05/03/2024'' @ post) = Some (caps, rest)"
  shows "\<exists>w. rest = w @ c # ''05/03/2024'' @ post"
proof -
  let ?ps = "[Rep Digit 1 2, Rep Sep 1 1, Rep Digit 1 2, Rep Sep 1 1, Rep Digit 4 4]"
  have hi: "\<forall>cl lo hi. Rep cl lo hi \<in> set ?ps \<longrightarrow> in_cls cl c \<longrightarrow> hi \<le> 1"
    using assms(1) by auto
  from match_items_cross [OF hi assms(2)] show ?thesis
  proof
    assume "\<exists>w. rest = w @ c # ''05/03/2024'' @ post"
    then show ?thesis .
  next
    assume "\<exists>qs cl lo hi ps'. ?ps = qs @ Rep cl lo hi # ps' \<and> in_cls cl c
        \<and> match_items ps' (''05/03/2024'' @ post) \<noteq> None"
    then obtain qs cl lo hi ps' where d: "?ps = qs @ Rep cl lo hi # ps'" "in_cls cl c"
      "match_items ps' (''05/03/2024'' @ post) \<noteq> None" by blast
    from d(2) assms(1) have "cl = Sep" by (cases cl) auto
    with d(1) have "ps' = [Rep Digit 1 2, Rep Sep 1 1, Rep Digit 4 4] \<or> ps' = [Rep Digit 4 4]"
      by (auto simp: Cons_eq_append_conv)
    with d(3) dmy_tails_fail [of post] have False by auto
    then show ?thesis ..
  qed
qed

lemma ymd_cross:
  assumes "\<not> in_cls Digit c" and "\<not> in_cls Sep c"
    and "match_items ps (u @ c # t) = Some (caps, rest)"
  shows "\<exists>w. rest = w @ c # t"
proof -
  have no: "\<And>cl. \<not> in_cls cl c"
    using assms(1,2) by (case_tac cl) auto
  then have hi: "\<forall>cl lo hi. Rep cl lo hi \<in> set ps \<longrightarrow> in_cls cl c \<longrightarrow> hi \<le> 1"
    by simp
  from match_items_cross [OF hi assms(3)] no show ?thesis by blast
qed

lemma dmy_found_after:
  assumes "\<not> in_cls Digit c"
  shows "[''05'', ''/'', ''03'', ''/'', ''2024'']
     \<in> set (finditer [Rep Digit 1 2, Rep Sep 1 1, Rep Digit 1 2, Rep Sep 1 1, Rep Digit 4 4]
              (pre @ c # ''05/03/2024'' @ post))"
proof -
  let ?ps = "[Rep Digit 1 2, Rep Sep 1 1, Rep Digit 1 2, Rep Sep 1 1, Rep Digit 4 4]"
  have "[''05'', ''/'', ''03'', ''/'', ''2024''] \<in> set (finditer ?ps (''05/03/2024'' @ post))"
    by (rule finditer_hit) (rule match_dmy)
  moreover have "set (finditer ?ps (''05/03/2024'' @ post))
      \<subseteq> set (finditer ?ps (pre @ c # ''05/03/2024'' @ post))"
    by (rule finditer_boundary) (rule dmy_cross [OF assms])
  ultimately show ?thesis by (rule set_mp [rotated])
qed

lemma ymd_found_after:
  assumes "\<not> in_cls Digit c" and "\<not> in_cls Sep c"
  shows "[''2024'', ''-'', ''03'', ''-'', ''05'']
     \<in> set (finditer [Rep Digit 4 4, Rep Sep 1 1, Rep Digit 1 2, Rep Sep 1 1, Rep Digit 1 2]
              (pre @ c # ''2024-03-05'' @ post))"
proof -
  let ?ps = "[Rep Digit 4 4, Rep Sep 1 1, Rep Digit 1 2, Rep Sep 1 1, Rep Digit 1 2]"
  have "[''2024'', ''-'', ''03'', ''-'', ''05''] \<in> set (finditer ?ps (''2024-03-05'' @ post))"
    by (rule finditer_hit) (rule match_ymd)
  moreover have "set (finditer ?ps (''2024-03-05'' @ post))
      \<subseteq> set (finditer ?ps (pre @ c # ''2024-03-05'' @ post))"
    by (rule finditer_boundary) (rule ymd_cross [OF assms])
  ultimately show ?thesis by (rule set_mp [rotated])
qed

lemma extract_dates_contains:
  assumes "pat \<in> set DATE_PATTERNS" and "m \<in> set (finditer (pat_items pat) text)"
    and "match_date pat m = Inr dt"
  shows "\<exists>ds. extract_dates text = Inr ds \<and> dt \<in> set ds"
proof -
  from assms have "dt \<in> {dt. \<exists>pat\<in>set DATE_PATTERNS.
      \<exists>m\<in>set (finditer (pat_items pat) text). match_date pat m = Inr dt}"
    by blast
  with extract_dates_result [of "text"] show ?thesis by auto
qed

lemma extract_dates_dmy_after:
  assumes "\<not> in_cls Digit c"
  shows "\<exists>ds. extract_dates (pre @ c # ''05/03/2024'' @ post) = Inr ds
           \<and> Date 2024 3 5 \<in> set ds"
  using dmy_in_patterns
proof (rule extract_dates_contains)
  show "[''05'', ''/'', ''03'', ''/'', ''2024''] \<in> set (finditer (pat_items
      (Pattern [Rep Digit 1 2, Rep Sep 1 1, Rep Digit 1 2, Rep Sep 1 1, Rep Digit 4 4] 4 2 0))
      (pre @ c # ''05/03/2024'' @ post))"
    unfolding pattern.sel by (rule dmy_found_after [OF assms])
  show "match_date
      (Pattern [Rep Digit 1 2, Rep Sep 1 1, Rep Digit 1 2, Rep Sep 1 1, Rep Digit 4 4] 4 2 0)
      [''05'', ''/'', ''03'', ''/'', ''2024''] = Inr (Date 2024 3 5)"
    by (rule dmy_date)
qed

lemma extract_dates_ymd_after:
  assumes "\<not> in_cls Digit c" and "\<not> in_cls Sep c"
  shows "\<exists>ds. extract_dates (pre @ c # ''2024-03-05'' @ post) = Inr ds
           \<and> Date 2024 3 5 \<in> set ds"
  using ymd_in_patterns
proof (rule extract_dates_contains)
  show "[''2024'', ''-'', ''03'', ''-'', ''05''] \<in> set (finditer (pat_items
      (Pattern [Rep Digit 4 4, Rep Sep 1 1, Rep Digit 1 2, Rep Sep 1 1, Rep Digit 1 2] 0 2 4))
      (pre @ c # ''2024-03-05'' @ post))"
    unfolding pattern.sel by (rule ymd_found_after [OF assms])
  show "match_date
      (Pattern [Rep Digit 4 4, Rep Sep 1 1, Rep Digit 1 2, Rep Sep 1 1, Rep Digit 1 2] 0 2 4)
      [''2024'', ''-'', ''03'', ''-'', ''05''] = Inr (Date 2024 3 5)"
    by (rule ymd_date)
qed

lemma extract_dates_dmy_start:
  "\<exists>ds. extract_dates (''05/03/2024'' @ post) = Inr ds \<and> Date 2024 3 5 \<in> set ds"
  using extract_dates_dmy [of "[]" post] by simp

lemma extract_dates_ymd_start:
  "\<exists>ds. extract_dates (''2024-03-05'' @ post) = Inr ds \<and> Date 2024 3 5 \<in> set ds"
  using extract_dates_ymd [of "[]" post] by simp

lemma ymd_second_pattern_after:
  assumes "\<not> in_cls Digit c" and "\<not> in_cls Sep c"
  shows "[''2024'', ''-'', ''03'', ''-'', ''05'']
     \<in> set (finditer (pat_items (DATE_PATTERNS ! 1)) (pre @ c # ''2024-03-05'' @ post))"
  using ymd_found_after [OF assms] by (simp add: DATE_PATTERNS_def)

lemma extract_dates_more_overlaps:
  "extract_dates (''1999-12-'' @ ''2024-03-05'') = Inr [Date 1999 12 20]
   \<and> extract_dates (''1999-12-1'' @ ''2024-03-05'') = Inr [Date 1999 12 12]"
  by code_simp

lemma extract_dates_range_text:
  "extract_dates ''01/03/2024-05/03/2024'' = Inr [Date 2024 3 1, Date 2024 3 5, Date 2024 5 3]"
  by code_simp

lemma extract_dates_overlap:
  "extract_dates (''1/1/20'' @ ''05/03/2024'') = Inr [Date 2005 1 1, Date 2005 3 20]"
  by code_simp

text \<open>
  Claim C2 says that a text containing \<^verbatim>\<open>05/03/2024\<close> yields the date 2024-03-05. The scan
  takes non-overlapping matches from left to right, so an earlier match can use up the
  start of the occurrence: in \<^verbatim>\<open>1/1/2005/03/2024\<close> the first pattern matches \<^verbatim>\<open>1/1/2005\<close>
  and the second \<^verbatim>\<open>2005/03/20\<close>, and 2024-03-05 is not found. Likewise \<^verbatim>\<open>2024-03-05\<close> is
  not found in \<^verbatim>\<open>1999-12-2024-03-05\<close>, where a separator stands before it, nor in
  \<^verbatim>\<open>1999-12-12024-03-05\<close>, where a digit does.
\<close>

theorem extract_dates_containing_counterexample:
  "extract_dates (''1/1/20'' @ ''05/03/2024'') = Inr [Date 2005 1 1, Date 2005 3 20]
   \<and> Date 2024 3 5 \<notin> set [Date 2005 1 1, Date 2005 3 20]
   \<and> extract_dates (''1999-12-'' @ ''2024-03-05'') = Inr [Date 1999 12 20]
   \<and> extract_dates (''1999-12-1'' @ ''2024-03-05'') = Inr [Date 1999 12 12]"
  by (intro conjI extract_dates_overlap conjunct1 [OF extract_dates_more_overlaps]
      conjunct2 [OF extract_dates_more_overlaps]) simp

lemma extract_dates_dmy_alone: "extract_dates ''05/03/2024'' = Inr [Date 2024 3 5]"
  by code_simp

lemma extract_dates_ymd_alone: "extract_dates ''2024-03-05'' = Inr [Date 2024 3 5]"
  by code_simp

lemma ymd_by_second_pattern:
  "finditer (pat_items (DATE_PATTERNS ! 0)) ''2024-03-05'' = []
   \<and> finditer (pat_items (DATE_PATTERNS ! 1)) ''2024-03-05''
       = [[''2024'', ''-'', ''03'', ''-'', ''05'']]"
  by code_simp

lemma dmy_no_digit_imp:
  "(\<forall>c\<in>set pre. \<not> in_cls Digit c) \<longrightarrow>
     (\<exists>ds. extract_dates (pre @ ''05/03/2024'' @ post) = Inr ds \<and> Date 2024 3 5 \<in> set ds)"
  using extract_dates_dmy by blast

lemma ymd_no_digit_imp:
  "(\<forall>c\<in>set pre. \<not> in_cls Digit c) \<longrightarrow>
     (\<exists>ds. extract_dates (pre @ ''2024-03-05'' @ post) = Inr ds \<and> Date 2024 3 5 \<in> set ds)"
  using extract_dates_ymd by blast

lemma dmy_after_imp:
  "\<not> in_cls Digit c \<longrightarrow>
     (\<exists>ds. extract_dates (pre @ c # ''05/03/2024'' @ post) = Inr ds
        \<and> Date 2024 3 5 \<in> set ds)"
  using extract_dates_dmy_after by blast

lemma ymd_after_imp:
  "\<not> in_cls Digit c \<and> \<not> in_cls Sep c \<longrightarrow>
     (\<exists>ds. extract_dates (pre @ c # ''2024-03-05'' @ post) = Inr ds
        \<and> Date 2024 3 5 \<in> set ds)
     \<and> [''2024'', ''-'', ''03'', ''-'', ''05'']
        \<in> set (finditer (pat_items (DATE_PATTERNS ! 1)) (pre @ c # ''2024-03-05'' @ post))"
  using extract_dates_ymd_after ymd_second_pattern_after by blast

text \<open>
  Claim C2, as the code has it. For every text \<^verbatim>\<open>extract_dates\<close> returns, without an error,
  the dates that the matches of the two patterns form when they are valid calendar dates,
  each once and in strictly ascending order. A text in which \<^verbatim>\<open>05/03/2024\<close> stands at the
  start, or directly after a character that is not a digit, yields 2024-03-05 (day before
  month). A text in which \<^verbatim>\<open>2024-03-05\<close> stands at the start, or directly after a
  character that is neither a digit nor one of the separators \<^verbatim>\<open>/\<close> and \<^verbatim>\<open>-\<close>, yields that
  date through a match of the second pattern. Both also hold when no digit at all stands
  before the occurrence.
\<close>

theorem extract_dates_exact:
  "(\<exists>ds. extract_dates text = Inr ds
      \<and> set ds = {dt. \<exists>pat\<in>set DATE_PATTERNS. \<exists>m\<in>set (finditer (pat_items pat) text).
                      match_date pat m = Inr dt}
      \<and> sorted_wrt (<) ds)
   \<and> ((\<forall>c\<in>set pre. \<not> in_cls Digit c) \<longrightarrow>
        (\<exists>ds. extract_dates (pre @ ''05/03/2024'' @ post) = Inr ds \<and> Date 2024 3 5 \<in> set ds))
   \<and> ((\<forall>c\<in>set pre. \<not> in_cls Digit c) \<longrightarrow>
        (\<exists>ds. extract_dates (pre @ ''2024-03-05'' @ post) = Inr ds \<and> Date 2024 3 5 \<in> set ds))
   \<and> extract_dates ''05/03/2024'' = Inr [Date 2024 3 5]
   \<and> extract_dates ''2024-03-05'' = Inr [Date 2024 3 5]
   \<and> finditer (pat_items (DATE_PATTERNS ! 0)) ''2024-03-05'' = []
   \<and> finditer (pat_items (DATE_PATTERNS ! 1)) ''2024-03-05''
       = [[''2024'', ''-'', ''03'', ''-'', ''05'']]
   \<and> (\<not> in_cls Digit c \<longrightarrow>
        (\<exists>ds. extract_dates (pre @ c # ''05/03/2024'' @ post) = Inr ds
           \<and> Date 2024 3 5 \<in> set ds))
   \<and> (\<exists>ds. extract_dates (''05/03/2024'' @ post) = Inr ds \<and> Date 2024 3 5 \<in> set ds)
   \<and> (\<not> in_cls Digit c \<and> \<not> in_cls Sep c \<longrightarrow>
        (\<exists>ds. extract_dates (pre @ c # ''2024-03-05'' @ post) = Inr ds
           \<and> Date 2024 3 5 \<in> set ds)
        \<and> [''2024'', ''-'', ''03'', ''-'', ''05'']
           \<in> set (finditer (pat_items (DATE_PATTERNS ! 1)) (pre @ c # ''2024-03-05'' @ post)))
   \<and> (\<exists>ds. extract_dates (''2024-03-05'' @ post) = Inr ds \<and> Date 2024 3 5 \<in> set ds)"
  by (intro conjI extract_dates_result dmy_no_digit_imp ymd_no_digit_imp
      extract_dates_dmy_alone extract_dates_ymd_alone
      conjunct1 [OF ymd_by_second_pattern] conjunct2 [OF ymd_by_second_pattern]
      dmy_after_imp extract_dates_dmy_start ymd_after_imp extract_dates_ymd_start)

theorem extract_dates_exact_witness:
  "\<exists>ds. extract_dates ''Sciopero 04/03/2024 e 05/03/2024'' = Inr ds \<and> Date 2024 3 5 \<in> set ds"
proof -
  have h: "\<not> in_cls Digit (CHR '' '')"
    by code_simp
  have "\<not> in_cls Digit (CHR '' '') \<longrightarrow>
      (\<exists>ds. extract_dates (''Sciopero 04/03/2024 e'' @ CHR '' '' # ''05/03/2024'' @ []) = Inr ds
         \<and> Date 2024 3 5 \<in> set ds)"
    by (rule conjunct1 [OF conjunct2 [OF conjunct2 [OF conjunct2 [OF conjunct2 [OF conjunct2
        [OF conjunct2 [OF conjunct2 [OF extract_dates_exact]]]]]]]])
  then have "\<exists>ds. extract_dates (''Sciopero 04/03/2024 e'' @ CHR '' '' # ''05/03/2024'' @ [])
         = Inr ds \<and> Date 2024 3 5 \<in> set ds"
    using h by (rule mp)
  then show ?thesis by simp
qed

lemma extract_dates_total_valid:
  "\<exists>ds. extract_dates text = Inr ds \<and> (\<forall>d\<in>set ds. valid_date d)"
proof -
  from extract_dates_result [of "text"] obtain ds where
    ds: "extract_dates text = Inr ds"
      "set ds = {dt. \<exists>pat\<in>set DATE_PATTERNS. \<exists>m\<in>set (finditer (pat_items pat) text).
                      match_date pat m = Inr dt}"
    by blast
  from ds(2) have "\<forall>d\<in>set ds. valid_date d"
    by (auto intro: match_date_valid)
  with ds(1) show ?thesis by blast
qed

lemma extract_dates_all_invalid:
  assumes "\<forall>pat\<in>set DATE_PATTERNS. \<forall>m\<in>set (finditer (pat_items pat) text).
             match_date pat m = Inl ValueError"
  shows "extract_dates text = Inr []"
proof -
  from extract_dates_result [of "text"] obtain ds where
    ds: "extract_dates text = Inr ds"
      "set ds = {dt. \<exists>pat\<in>set DATE_PATTERNS. \<exists>m\<in>set (finditer (pat_items pat) text).
                      match_date pat m = Inr dt}"
    by blast
  from ds(2) assms have "set ds = {}" by auto
  with ds(1) show ?thesis by simp
qed

lemma feb31_match:
  "finditer (pat_items (DATE_PATTERNS ! 0)) ''31/02/2024'' = [[''31'', ''/'', ''02'', ''/'', ''2024'']]
   \<and> match_date (DATE_PATTERNS ! 0) [''31'', ''/'', ''02'', ''/'', ''2024''] = Inl ValueError"
  by code_simp

lemma feb31_alone: "extract_dates ''31/02/2024'' = Inr []"
  by code_simp

lemma feb31_mixed: "extract_dates ''Sciopero 31/02/2024 e 07/03/2024'' = Inr [Date 2024 3 7]"
  by code_simp

text \<open>
  Claim C6. \<^verbatim>\<open>extract_dates\<close> raises no error on any text: it returns a list, and every
  date in it is a valid calendar date. A match that forms an invalid date adds nothing: when
  every match of a text is invalid the result is empty. \<^verbatim>\<open>31/02/2024\<close> is matched by the
  first pattern, the date constructor raises \<^verbatim>\<open>ValueError\<close>, and no date comes out of it.
\<close>

theorem extract_dates_never_raises:
  "(\<exists>ds. extract_dates text = Inr ds \<and> (\<forall>d\<in>set ds. valid_date d))
   \<and> ((\<forall>pat\<in>set DATE_PATTERNS. \<forall>m\<in>set (finditer (pat_items pat) text).
          match_date pat m = Inl ValueError) \<longrightarrow> extract_dates text = Inr [])
   \<and> finditer (pat_items (DATE_PATTERNS ! 0)) ''31/02/2024''
       = [[''31'', ''/'', ''02'', ''/'', ''2024'']]
   \<and> match_date (DATE_PATTERNS ! 0) [''31'', ''/'', ''02'', ''/'', ''2024''] = Inl ValueError
   \<and> extract_dates ''31/02/2024'' = Inr []
   \<and> extract_dates ''Sciopero 31/02/2024 e 07/03/2024'' = Inr [Date 2024 3 7]"
  by (intro conjI impI extract_dates_total_valid extract_dates_all_invalid
      conjunct1 [OF feb31_match] conjunct2 [OF feb31_match] feb31_alone feb31_mixed)

theorem extract_dates_never_raises_witness:
  "extract_dates ''29/02/2023 e 2023-04-31'' = Inr []"
proof -
  have h: "\<forall>pat\<in>set DATE_PATTERNS.
      \<forall>m\<in>set (finditer (pat_items pat) ''29/02/2023 e 2023-04-31'').
        match_date pat m = Inl ValueError"
    by code_simp
  have "(\<forall>pat\<in>set DATE_PATTERNS.
      \<forall>m\<in>set (finditer (pat_items pat) ''29/02/2023 e 2023-04-31'').
        match_date pat m = Inl ValueError) \<longrightarrow>
      extract_dates ''29/02/2023 e 2023-04-31'' = Inr []"
    by (rule conjunct1 [OF conjunct2 [OF extract_dates_never_raises]])
  then show ?thesis using h by (rule mp)
qed

section \<open>Properties of the span selector\<close>

lemma fold_min_date:
  "fold (\<lambda>d best. if d < best then d else best) xs (x :: date) = Min (set (x # xs))"
proof -
  have "(\<lambda>d best :: date. if d < best then d else best) = min"
    by (auto simp: fun_eq_iff min_def)
  then show ?thesis by (simp only: Min.set_eq_fold)
qed

lemma fold_max_date:
  "fold (\<lambda>d best. if best < d then d else best) xs (x :: date) = Max (set (x # xs))"
proof -
  have "(\<lambda>d best :: date. if best < d then d else best) = max"
    by (auto simp: fun_eq_iff max_def)
  then show ?thesis by (simp only: Max.set_eq_fold)
qed

lemma py_min_Min: "dates \<noteq> [] \<Longrightarrow> py_min dates = Inr (Min (set dates))"
  by (cases dates) (simp_all add: fold_min_date)

lemma py_max_Max: "dates \<noteq> [] \<Longrightarrow> py_max dates = Inr (Max (set dates))"
  by (cases dates) (simp_all add: fold_max_date)

lemma month_cases:
  assumes "1 \<le> m" "m \<le> (12 :: int)"
  obtains "m = 1" | "m = 2" | "m = 3" | "m = 4" | "m = 5" | "m = 6"
    | "m = 7" | "m = 8" | "m = 9" | "m = 10" | "m = 11" | "m = 12"
proof -
  from assms have "m \<in> {1..12}" by simp
  also have "{1..12::int} = set [1..12]" by simp
  also have "\<dots> = {1, 2, 3, 4, 5, 6, 7, 8, 9, 10, 11, 12}"
    by (simp add: upto.simps)
  finally show ?thesis using that by blast
qed

lemma valid_date_iff:
  "valid_date (Date y m d) \<longleftrightarrow>
     1 \<le> y \<and> y \<le> 9999 \<and> 1 \<le> m \<and> m \<le> 12 \<and> 1 \<le> d \<and> d \<le> days_in_month y m"
  by (auto simp: valid_date_def date_new_def)

lemma days_in_month_bounds:
  assumes "1 \<le> m" "m \<le> 12"
  shows "28 \<le> days_in_month y m \<and> days_in_month y m \<le> 31"
  using assms by (cases rule: month_cases) (simp_all add: days_in_month_def DAYS_IN_MONTH_def)

lemma add_one_day_cases:
  assumes "valid_date (Date y m d)" and "Date y m d \<noteq> Date 9999 12 31"
  shows "date_add_one_day (Date y m d) =
     Inr (if d < days_in_month y m then Date y m (d + 1)
          else if m < 12 then Date y (m + 1) 1 else Date (y + 1) 1 1)"
  using assms(2) by (simp add: date_add_one_day_def)

lemma add_one_day_valid:
  assumes "valid_date dt" and "dt \<noteq> Date 9999 12 31"
  shows "\<exists>e. date_add_one_day dt = Inr e \<and> valid_date e \<and> dt < e"
proof (cases dt)
  case (Date y m d)
  with assms(1) have v: "1 \<le> y" "y \<le> 9999" "1 \<le> m" "m \<le> 12" "1 \<le> d"
    "d \<le> days_in_month y m"
    by (simp_all add: valid_date_iff)
  note step = add_one_day_cases [OF assms [unfolded Date]]
  show ?thesis
  proof (cases "d < days_in_month y m")
    case True
    with v show ?thesis
      unfolding Date step by (simp add: valid_date_iff less_date_def)
  next
    case False
    with v have d: "d = days_in_month y m" by simp
    show ?thesis
    proof (cases "m < 12")
      case True
      with v have "1 \<le> m + 1" "m + 1 \<le> 12" by simp_all
      then have "28 \<le> days_in_month y (m + 1)"
        using days_in_month_bounds by blast
      with True v d show ?thesis
        unfolding Date step by (simp add: valid_date_iff less_date_def)
    next
      case False
      with v have m: "m = 12" by simp
      with d have d31: "d = 31" by (simp add: days_in_month_def DAYS_IN_MONTH_def)
      with Date m assms(2) have "y \<noteq> 9999" by auto
      with v have "y + 1 \<le> 9999" by simp
      with m d31 v show ?thesis
        unfolding Date step
        by (simp add: valid_date_iff less_date_def days_in_month_def DAYS_IN_MONTH_def)
    qed
  qed
qed

lemma div_step:
  assumes "0 < (k::int)"
  shows "y div k = (y - 1) div k + (if y mod k = 0 then 1 else 0)"
proof (cases "y mod k = 0")
  case True
  have y: "y = k * (y div k)" using mult_div_mod_eq [of k y] True by simp
  have "y - 1 = k * (y div k - 1) + (k - 1)"
    using y by (simp add: algebra_simps)
  then have "(y - 1) div k = y div k - 1"
    by (rule int_div_pos_eq) (use assms in simp_all)
  with True show ?thesis by simp
next
  case False
  have r: "0 \<le> y mod k" "y mod k < k" using assms by simp_all
  with False have r1: "0 \<le> y mod k - 1" by simp
  have "y - 1 = k * (y div k) + (y mod k - 1)"
    by (simp add: algebra_simps)
  then have "(y - 1) div k = y div k"
    by (rule int_div_pos_eq) (use r1 r(2) in simp_all)
  with False show ?thesis by simp
qed

lemma mod_400_100: "(y::int) mod 400 = 0 \<Longrightarrow> y mod 100 = 0"
proof -
  assume "y mod 400 = 0"
  then have "400 dvd y" by (simp add: mod_eq_0_iff_dvd)
  moreover have "(100::int) dvd 400" by simp
  ultimately have "100 dvd y" by (rule dvd_trans [rotated])
  then show ?thesis by (simp add: mod_eq_0_iff_dvd)
qed

lemma mod_100_4: "(y::int) mod 100 = 0 \<Longrightarrow> y mod 4 = 0"
proof -
  assume "y mod 100 = 0"
  then have "100 dvd y" by (simp add: mod_eq_0_iff_dvd)
  moreover have "(4::int) dvd 100" by simp
  ultimately have "4 dvd y" by (rule dvd_trans [rotated])
  then show ?thesis by (simp add: mod_eq_0_iff_dvd)
qed

lemma year_step:
  "(y::int) * 365 + y div 4 - y div 100 + y div 400
     = (y - 1) * 365 + (y - 1) div 4 - (y - 1) div 100 + (y - 1) div 400 + 365
       + (if y mod 4 = 0 \<and> (y mod 100 \<noteq> 0 \<or> y mod 400 = 0) then 1 else 0)"
proof -
  have a: "y div 4 = (y - 1) div 4 + (if y mod 4 = 0 then 1 else 0)"
    by (rule div_step) simp
  have b: "y div 100 = (y - 1) div 100 + (if y mod 100 = 0 then 1 else 0)"
    by (rule div_step) simp
  have c: "y div 400 = (y - 1) div 400 + (if y mod 400 = 0 then 1 else 0)"
    by (rule div_step) simp
  show ?thesis
    unfolding a b c using mod_400_100 [of y] mod_100_4 [of y]
    by (cases "y mod 4 = 0"; cases "y mod 100 = 0"; cases "y mod 400 = 0")
       (simp_all add: algebra_simps)
qed

lemma month_step:
  assumes "1 \<le> m" "m < 12"
  shows "DAYS_BEFORE_MONTH ! nat (m + 1) + (if m + 1 > 2 \<and> is_leap y then 1 else 0)
     = DAYS_BEFORE_MONTH ! nat m + (if m > 2 \<and> is_leap y then 1 else 0) + days_in_month y m"
proof -
  from assms have "1 \<le> m" "m \<le> 12" by simp_all
  then show ?thesis
    using assms(2)
    by (cases rule: month_cases)
       (simp_all add: DAYS_BEFORE_MONTH_def days_in_month_def DAYS_IN_MONTH_def)
qed

lemma toordinal_next_day: "toordinal (Date y m (d + 1)) = toordinal (Date y m d) + 1"
  by (simp add: toordinal_def Let_def)

lemma toordinal_split:
  "toordinal (Date y m d)
     = ((y - 1) * 365 + (y - 1) div 4 - (y - 1) div 100 + (y - 1) div 400)
       + (DAYS_BEFORE_MONTH ! nat m + (if m > 2 \<and> is_leap y then 1 else 0)) + d"
  by (simp add: toordinal_def Let_def)

lemma toordinal_next_month:
  assumes "1 \<le> m" "m < 12"
  shows "toordinal (Date y (m + 1) 1) = toordinal (Date y m (days_in_month y m)) + 1"
proof -
  define Y where "Y = (y - 1) * 365 + (y - 1) div 4 - (y - 1) div 100 + (y - 1) div 400"
  define P where "P = DAYS_BEFORE_MONTH ! nat m + (if m > 2 \<and> is_leap y then 1 else 0)"
  define P' where
    "P' = DAYS_BEFORE_MONTH ! nat (m + 1) + (if m + 1 > 2 \<and> is_leap y then 1 else 0)"
  have "P' = P + days_in_month y m"
    unfolding P_def P'_def by (rule month_step [OF assms])
  moreover have "toordinal (Date y (m + 1) 1) = Y + P' + 1"
    unfolding Y_def P'_def by (rule toordinal_split)
  moreover have "toordinal (Date y m (days_in_month y m)) = Y + P + days_in_month y m"
    unfolding Y_def P_def by (rule toordinal_split)
  ultimately show ?thesis by simp
qed

lemma toordinal_next_year:
  "toordinal (Date (y + 1) 1 1) = toordinal (Date y 12 31) + 1"
proof -
  define Y where "Y = (y - 1) * 365 + (y - 1) div 4 - (y - 1) div 100 + (y - 1) div 400"
  define Y' where "Y' = y * 365 + y div 4 - y div 100 + y div 400"
  define L where "L = (if is_leap y then 1 else 0 :: int)"
  have "Y' = Y + 365 + L"
    unfolding Y_def Y'_def L_def is_leap_def by (rule year_step)
  moreover have "toordinal (Date (y + 1) 1 1)
      = (y + 1 - 1) * 365 + (y + 1 - 1) div 4 - (y + 1 - 1) div 100 + (y + 1 - 1) div 400
        + (DAYS_BEFORE_MONTH ! nat 1 + (if (1::int) > 2 \<and> is_leap (y + 1) then 1 else 0)) + 1"
    by (rule toordinal_split)
  then have "toordinal (Date (y + 1) 1 1) = Y' + 1"
    unfolding Y'_def by (simp add: DAYS_BEFORE_MONTH_def)
  moreover have "toordinal (Date y 12 31)
      = Y + (DAYS_BEFORE_MONTH ! nat 12 + (if (12::int) > 2 \<and> is_leap y then 1 else 0)) + 31"
    unfolding Y_def by (rule toordinal_split)
  then have "toordinal (Date y 12 31) = Y + (334 + L) + 31"
    unfolding L_def by (simp add: DAYS_BEFORE_MONTH_def)
  ultimately show ?thesis by simp
qed

lemma add_one_day_ordinal:
  assumes "valid_date dt" and "dt \<noteq> Date 9999 12 31" and "date_add_one_day dt = Inr e"
  shows "toordinal e = toordinal dt + 1"
proof (cases dt)
  case (Date y m d)
  with assms(1) have v: "1 \<le> m" "m \<le> 12" "1 \<le> d" "d \<le> days_in_month y m"
    by (simp_all add: valid_date_iff)
  note step = add_one_day_cases [OF assms(1,2) [unfolded Date]]
  from assms(3) have e: "e = (if d < days_in_month y m then Date y m (d + 1)
          else if m < 12 then Date y (m + 1) 1 else Date (y + 1) 1 1)"
    unfolding Date step by simp
  show ?thesis
  proof (cases "d < days_in_month y m")
    case True
    with e have "e = Date y m (d + 1)" by simp
    then show ?thesis unfolding Date by (simp only: toordinal_next_day)
  next
    case False
    with v have d: "d = days_in_month y m" by simp
    show ?thesis
    proof (cases "m < 12")
      case True
      with e d have "e = Date y (m + 1) 1" by simp
      then show ?thesis
        unfolding Date d by (simp only: toordinal_next_month [OF v(1) True])
    next
      case False
      with v have m: "m = 12" by simp
      with d have d31: "d = 31" by (simp add: days_in_month_def DAYS_IN_MONTH_def)
      from e m d31 have "e = Date (y + 1) 1 1"
        by (simp add: days_in_month_def DAYS_IN_MONTH_def)
      then show ?thesis
        unfolding Date m d31 by (simp only: toordinal_next_year)
    qed
  qed
qed

lemma choose_event_span_nonempty:
  assumes "dates \<noteq> []"
  shows "choose_event_span dates =
     (case date_add_one_day (Max (set dates)) of
        Inl e \<Rightarrow> Inl e
      | Inr end_date \<Rightarrow> Inr (Some (Min (set dates), end_date)))"
  using assms by (simp add: choose_event_span_def py_min_Min py_max_Max)

lemma choose_event_span_ok:
  assumes "dates \<noteq> []" and "\<forall>d\<in>set dates. valid_date d"
    and "Max (set dates) \<noteq> Date 9999 12 31"
  shows "\<exists>e. choose_event_span dates = Inr (Some (Min (set dates), e))
           \<and> date_add_one_day (Max (set dates)) = Inr e
           \<and> toordinal e = toordinal (Max (set dates)) + 1
           \<and> valid_date e \<and> Min (set dates) < e"
proof -
  have fin: "finite (set dates)" and ne: "set dates \<noteq> {}"
    using assms(1) by simp_all
  have mem: "Max (set dates) \<in> set dates"
    using fin ne by (rule Max_in)
  with assms(2) have v: "valid_date (Max (set dates))" by blast
  from add_one_day_valid [OF v assms(3)] obtain e where
    e: "date_add_one_day (Max (set dates)) = Inr e" "valid_date e" "Max (set dates) < e"
    by blast
  have "Min (set dates) \<le> Max (set dates)"
    using fin mem by (rule Min_le)
  then have lt: "Min (set dates) < e" using e(3) by (rule le_less_trans)
  have "choose_event_span dates = Inr (Some (Min (set dates), e))"
    using e(1) by (simp add: choose_event_span_nonempty [OF assms(1)])
  moreover have "toordinal e = toordinal (Max (set dates)) + 1"
    using v assms(3) e(1) by (rule add_one_day_ordinal)
  ultimately show ?thesis using e(1,2) lt by blast
qed

lemma choose_event_span_overflow:
  assumes "dates \<noteq> []" and "Max (set dates) = Date 9999 12 31"
  shows "choose_event_span dates = Inl OverflowError"
  using assms(2)
  by (simp add: choose_event_span_nonempty [OF assms(1)] date_add_one_day_def)

lemma span_one: "choose_event_span [Date 2024 3 5] = Inr (Some (Date 2024 3 5, Date 2024 3 6))"
  by code_simp

lemma span_two:
  "choose_event_span [Date 2024 3 5, Date 2024 3 7] = Inr (Some (Date 2024 3 5, Date 2024 3 8))"
  by code_simp

lemma span_max_date:
  "extract_dates ''31/12/9999'' = Inr [Date 9999 12 31]
   \<and> valid_date (Date 9999 12 31)
   \<and> choose_event_span [Date 9999 12 31] = Inl OverflowError"
  by code_simp

text \<open>
  Claim C3 says that every non-empty list of dates gets a span. The latest date plus one
  day does not exist when the latest date is \<^verbatim>\<open>date.max\<close>: the text \<^verbatim>\<open>31/12/9999\<close> yields
  the valid date 9999-12-31, and \<^verbatim>\<open>choose_event_span\<close> on it ends in the \<^verbatim>\<open>OverflowError\<close>
  of the date addition.
\<close>

theorem choose_event_span_counterexample:
  "extract_dates ''31/12/9999'' = Inr [Date 9999 12 31]
   \<and> valid_date (Date 9999 12 31)
   \<and> choose_event_span [Date 9999 12 31] = Inl OverflowError"
  by (rule span_max_date)

text \<open>
  Claim C3, as the code has it. On the empty list \<^verbatim>\<open>choose_event_span\<close> returns \<^verbatim>\<open>None\<close>.
  On a non-empty list of dates whose latest date is before 9999-12-31 it returns the
  earliest date and the day after the latest date (the date whose ordinal is one more);
  that end is a date and lies after the start. A single date \<open>d\<close> gives the span from \<open>d\<close>
  to the day after \<open>d\<close>. When the latest date is 9999-12-31 the call ends in
  \<^verbatim>\<open>OverflowError\<close>.
\<close>

theorem choose_event_span_spec:
  "choose_event_span [] = Inr None
   \<and> (dates \<noteq> [] \<and> (\<forall>d\<in>set dates. valid_date d) \<and> Max (set dates) \<noteq> Date 9999 12 31 \<longrightarrow>
        (\<exists>e. choose_event_span dates = Inr (Some (Min (set dates), e))
           \<and> date_add_one_day (Max (set dates)) = Inr e
           \<and> toordinal e = toordinal (Max (set dates)) + 1
           \<and> valid_date e \<and> Min (set dates) < e))
   \<and> (valid_date d \<and> d \<noteq> Date 9999 12 31 \<longrightarrow>
        (\<exists>e. choose_event_span [d] = Inr (Some (d, e))
           \<and> toordinal e = toordinal d + 1 \<and> d < e))
   \<and> (dates \<noteq> [] \<and> Max (set dates) = Date 9999 12 31 \<longrightarrow>
        choose_event_span dates = Inl OverflowError)
   \<and> choose_event_span [Date 2024 3 5] = Inr (Some (Date 2024 3 5, Date 2024 3 6))
   \<and> choose_event_span [Date 2024 3 5, Date 2024 3 7]
       = Inr (Some (Date 2024 3 5, Date 2024 3 8))"
proof (intro conjI impI)
  show "choose_event_span [] = Inr None"
    by (simp add: choose_event_span_def)
next
  assume "dates \<noteq> [] \<and> (\<forall>d\<in>set dates. valid_date d) \<and> Max (set dates) \<noteq> Date 9999 12 31"
  then show "\<exists>e. choose_event_span dates = Inr (Some (Min (set dates), e))
           \<and> date_add_one_day (Max (set dates)) = Inr e
           \<and> toordinal e = toordinal (Max (set dates)) + 1
           \<and> valid_date e \<and> Min (set dates) < e"
    by (intro choose_event_span_ok) simp_all
next
  assume a: "valid_date d \<and> d \<noteq> Date 9999 12 31"
  have "\<exists>e. choose_event_span [d] = Inr (Some (Min (set [d]), e))
           \<and> date_add_one_day (Max (set [d])) = Inr e
           \<and> toordinal e = toordinal (Max (set [d])) + 1
           \<and> valid_date e \<and> Min (set [d]) < e"
    using a by (intro choose_event_span_ok) simp_all
  then show "\<exists>e. choose_event_span [d] = Inr (Some (d, e))
           \<and> toordinal e = toordinal d + 1 \<and> d < e"
    by auto
next
  assume "dates \<noteq> [] \<and> Max (set dates) = Date 9999 12 31"
  then show "choose_event_span dates = Inl OverflowError"
    by (intro choose_event_span_overflow) simp_all
next
  show "choose_event_span [Date 2024 3 5] = Inr (Some (Date 2024 3 5, Date 2024 3 6))"
    by (rule span_one)
next
  show "choose_event_span [Date 2024 3 5, Date 2024 3 7]
       = Inr (Some (Date 2024 3 5, Date 2024 3 8))"
    by (rule span_two)
qed

theorem choose_event_span_spec_witness:
  "\<exists>e. choose_event_span [Date 2024 2 28, Date 2024 2 27] = Inr (Some (Date 2024 2 27, e))
     \<and> toordinal e = toordinal (Date 2024 2 28) + 1"
proof -
  let ?ds = "[Date 2024 2 28, Date 2024 2 27]"
  have h: "?ds \<noteq> [] \<and> (\<forall>d\<in>set ?ds. valid_date d) \<and> Max (set ?ds) \<noteq> Date 9999 12 31"
    by code_simp
  have mm: "Min (set ?ds) = Date 2024 2 27 \<and> Max (set ?ds) = Date 2024 2 28"
    by code_simp
  have "?ds \<noteq> [] \<and> (\<forall>d\<in>set ?ds. valid_date d) \<and> Max (set ?ds) \<noteq> Date 9999 12 31 \<longrightarrow>
        (\<exists>e. choose_event_span ?ds = Inr (Some (Min (set ?ds), e))
           \<and> date_add_one_day (Max (set ?ds)) = Inr e
           \<and> toordinal e = toordinal (Max (set ?ds)) + 1
           \<and> valid_date e \<and> Min (set ?ds) < e)"
    by (rule conjunct1 [OF conjunct2 [OF choose_event_span_spec]])
  then have "\<exists>e. choose_event_span ?ds = Inr (Some (Min (set ?ds), e))
           \<and> date_add_one_day (Max (set ?ds)) = Inr e
           \<and> toordinal e = toordinal (Max (set ?ds)) + 1
           \<and> valid_date e \<and> Min (set ?ds) < e"
    using h by (rule mp)
  then show ?thesis
    unfolding conjunct1 [OF mm] conjunct2 [OF mm] by blast
qed

section \<open>Properties of the classifier and the pipeline\<close>












lemma process_entry_not_included:
  "\<not> should_include (blob_of e) geo_kw include_national nat_mode_kw \<Longrightarrow>
   process_entry geo_kw include_national nat_mode_kw e = Inr None"
  by (simp add: process_entry_def Let_def)

lemma process_entry_skip_no_dates:
  assumes "should_include (blob_of e) geo_kw include_national nat_mode_kw"
    and "extract_dates (blob_of e) = Inr []"
    and "published_parsed e = None" and "updated_parsed e = None"
  shows "process_entry geo_kw include_national nat_mode_kw e = Inr None"
  using assms by (simp add: process_entry_def Let_def fallback_dates_def choose_event_span_def)

lemma process_entry_fallback:
  assumes "should_include (blob_of e) geo_kw include_national nat_mode_kw"
    and "extract_dates (blob_of e) = Inr []"
    and "(case published_parsed e of Some p \<Rightarrow> Some p | None \<Rightarrow> updated_parsed e) = Some pp"
    and "date_new (tm_year pp) (tm_mon pp) (tm_mday pp) = Inr d"
    and "d \<noteq> Date 9999 12 31"
  shows "\<exists>ev. process_entry geo_kw include_national nat_mode_kw e = Inr (Some ev)
           \<and> ev_dtstart ev = d \<and> date_add_one_day d = Inr (ev_dtend ev)
           \<and> toordinal (ev_dtend ev) = toordinal d + 1 \<and> d < ev_dtend ev"
proof -
  have v: "valid_date d" using assms(4) by (rule date_new_valid)
  have "\<exists>x. choose_event_span [d] = Inr (Some (Min (set [d]), x))
           \<and> date_add_one_day (Max (set [d])) = Inr x
           \<and> toordinal x = toordinal (Max (set [d])) + 1
           \<and> valid_date x \<and> Min (set [d]) < x"
    using v assms(5) by (intro choose_event_span_ok) simp_all
  then obtain x where x: "choose_event_span [d] = Inr (Some (d, x))"
    "date_add_one_day d = Inr x" "toordinal x = toordinal d + 1" "d < x"
    by auto
  have "fallback_dates e [] = Inr [d]"
    using assms(3,4) by (simp add: fallback_dates_def)
  then show ?thesis
    using assms(1,2) x by (simp add: process_entry_def Let_def)
qed

lemma main_loop_skip:
  "process_entry geo_kw include_national nat_mode_kw e = Inr None \<Longrightarrow>
   main_loop geo_kw include_national nat_mode_kw cal (e # es)
     = main_loop geo_kw include_national nat_mode_kw cal es"
  by simp

lemma process_entry_fallback_overflow:
  assumes "should_include (blob_of e) geo_kw include_national nat_mode_kw"
    and "extract_dates (blob_of e) = Inr []"
    and "(case published_parsed e of Some p \<Rightarrow> Some p | None \<Rightarrow> updated_parsed e) = Some pp"
    and "date_new (tm_year pp) (tm_mon pp) (tm_mday pp) = Inr (Date 9999 12 31)"
  shows "process_entry geo_kw include_national nat_mode_kw e = Inl OverflowError"
proof -
  have "fallback_dates e [] = Inr [Date 9999 12 31]"
    using assms(3,4) by (simp add: fallback_dates_def)
  moreover have "choose_event_span [Date 9999 12 31] = Inl OverflowError"
    by (rule choose_event_span_overflow) simp_all
  ultimately show ?thesis
    using assms(1,2) by (simp add: process_entry_def Let_def)
qed

lemma max_stamp_entry:
  "should_include
     (blob_of \<lparr>entry_title = Some ''Sciopero Milano'', entry_summary = None,
        entry_description = None, entry_link = None,
        published_parsed = Some \<lparr>tm_year = 9999, tm_mon = 12, tm_mday = 31\<rparr>,
        updated_parsed = None\<rparr>)
     DEFAULT_GEO_KEYWORDS True DEFAULT_NATIONAL_MODE_KEYWORDS
   \<and> extract_dates
     (blob_of \<lparr>entry_title = Some ''Sciopero Milano'', entry_summary = None,
        entry_description = None, entry_link = None,
        published_parsed = Some \<lparr>tm_year = 9999, tm_mon = 12, tm_mday = 31\<rparr>,
        updated_parsed = None\<rparr>) = Inr []
   \<and> process_entry DEFAULT_GEO_KEYWORDS True DEFAULT_NATIONAL_MODE_KEYWORDS
     \<lparr>entry_title = Some ''Sciopero Milano'', entry_summary = None,
        entry_description = None, entry_link = None,
        published_parsed = Some \<lparr>tm_year = 9999, tm_mon = 12, tm_mday = 31\<rparr>,
        updated_parsed = None\<rparr> = Inl OverflowError"
  by code_simp

lemma updated_stamp_entry:
  "should_include
     (blob_of \<lparr>entry_title = Some ''Sciopero Milano'', entry_summary = None,
        entry_description = None, entry_link = None, published_parsed = None,
        updated_parsed = Some \<lparr>tm_year = 2024, tm_mon = 3, tm_mday = 5\<rparr>\<rparr>)
     DEFAULT_GEO_KEYWORDS False []
   \<and> extract_dates
     (blob_of \<lparr>entry_title = Some ''Sciopero Milano'', entry_summary = None,
        entry_description = None, entry_link = None, published_parsed = None,
        updated_parsed = Some \<lparr>tm_year = 2024, tm_mon = 3, tm_mday = 5\<rparr>\<rparr>) = Inr []
   \<and> (case published_parsed \<lparr>entry_title = Some ''Sciopero Milano'', entry_summary = None,
        entry_description = None, entry_link = None, published_parsed = None,
        updated_parsed = Some \<lparr>tm_year = 2024, tm_mon = 3, tm_mday = 5\<rparr>\<rparr> of
        Some p \<Rightarrow> Some p
      | None \<Rightarrow> updated_parsed \<lparr>entry_title = Some ''Sciopero Milano'', entry_summary = None,
        entry_description = None, entry_link = None, published_parsed = None,
        updated_parsed = Some \<lparr>tm_year = 2024, tm_mon = 3, tm_mday = 5\<rparr>\<rparr>)
     = Some \<lparr>tm_year = 2024, tm_mon = 3, tm_mday = 5\<rparr>
   \<and> date_new (tm_year \<lparr>tm_year = 2024, tm_mon = 3, tm_mday = 5\<rparr>)
       (tm_mon \<lparr>tm_year = 2024, tm_mon = 3, tm_mday = 5\<rparr>)
       (tm_mday \<lparr>tm_year = 2024, tm_mon = 3, tm_mday = 5\<rparr>) = Inr (Date 2024 3 5)
   \<and> Date 2024 3 5 \<noteq> Date 9999 12 31"
  by code_simp






lemma skip_imp:
  "should_include (blob_of e) geo_kw include_national nat_mode_kw
     \<and> extract_dates (blob_of e) = Inr []
     \<and> published_parsed e = None \<and> updated_parsed e = None \<longrightarrow>
   process_entry geo_kw include_national nat_mode_kw e = Inr None
     \<and> main_loop geo_kw include_national nat_mode_kw cal (e # es)
         = main_loop geo_kw include_national nat_mode_kw cal es"
proof (intro impI conjI)
  assume a: "should_include (blob_of e) geo_kw include_national nat_mode_kw
     \<and> extract_dates (blob_of e) = Inr []
     \<and> published_parsed e = None \<and> updated_parsed e = None"
  then show s: "process_entry geo_kw include_national nat_mode_kw e = Inr None"
    by (intro process_entry_skip_no_dates) simp_all
  then show "main_loop geo_kw include_national nat_mode_kw cal (e # es)
         = main_loop geo_kw include_national nat_mode_kw cal es"
    by (rule main_loop_skip)
qed

lemma fallback_imp:
  "should_include (blob_of e) geo_kw include_national nat_mode_kw
     \<and> extract_dates (blob_of e) = Inr []
     \<and> (case published_parsed e of Some p \<Rightarrow> Some p | None \<Rightarrow> updated_parsed e) = Some pp
     \<and> date_new (tm_year pp) (tm_mon pp) (tm_mday pp) = Inr d
     \<and> d \<noteq> Date 9999 12 31 \<longrightarrow>
   (\<exists>ev. process_entry geo_kw include_national nat_mode_kw e = Inr (Some ev)
      \<and> ev_dtstart ev = d \<and> date_add_one_day d = Inr (ev_dtend ev)
      \<and> toordinal (ev_dtend ev) = toordinal d + 1 \<and> d < ev_dtend ev)"
proof
  assume a: "should_include (blob_of e) geo_kw include_national nat_mode_kw
     \<and> extract_dates (blob_of e) = Inr []
     \<and> (case published_parsed e of Some p \<Rightarrow> Some p | None \<Rightarrow> updated_parsed e) = Some pp
     \<and> date_new (tm_year pp) (tm_mon pp) (tm_mday pp) = Inr d
     \<and> d \<noteq> Date 9999 12 31"
  then show "\<exists>ev. process_entry geo_kw include_national nat_mode_kw e = Inr (Some ev)
      \<and> ev_dtstart ev = d \<and> date_add_one_day d = Inr (ev_dtend ev)
      \<and> toordinal (ev_dtend ev) = toordinal d + 1 \<and> d < ev_dtend ev"
    by (intro process_entry_fallback [where pp = pp]) simp_all
qed

lemma fallback_overflow_imp:
  "should_include (blob_of e) geo_kw include_national nat_mode_kw
     \<and> extract_dates (blob_of e) = Inr []
     \<and> (case published_parsed e of Some p \<Rightarrow> Some p | None \<Rightarrow> updated_parsed e) = Some pp
     \<and> date_new (tm_year pp) (tm_mon pp) (tm_mday pp) = Inr (Date 9999 12 31) \<longrightarrow>
   process_entry geo_kw include_national nat_mode_kw e = Inl OverflowError"
proof
  assume "should_include (blob_of e) geo_kw include_national nat_mode_kw
     \<and> extract_dates (blob_of e) = Inr []
     \<and> (case published_parsed e of Some p \<Rightarrow> Some p | None \<Rightarrow> updated_parsed e) = Some pp
     \<and> date_new (tm_year pp) (tm_mon pp) (tm_mday pp) = Inr (Date 9999 12 31)"
  then show "process_entry geo_kw include_national nat_mode_kw e = Inl OverflowError"
    by (intro process_entry_fallback_overflow [where pp = pp]) simp_all
qed

text \<open>
  Claim C7 says that every included entry without extracted dates gets a one-day span from
  its time stamp. An entry whose published time stamp is 9999-12-31 is included, has no
  date in its blob, and ends the run with the \<^verbatim>\<open>OverflowError\<close> of the date addition in
  \<^verbatim>\<open>choose_event_span\<close>.
\<close>

theorem fallback_stamp_counterexample:
  "should_include
     (blob_of \<lparr>entry_title = Some ''Sciopero Milano'', entry_summary = None,
        entry_description = None, entry_link = None,
        published_parsed = Some \<lparr>tm_year = 9999, tm_mon = 12, tm_mday = 31\<rparr>,
        updated_parsed = None\<rparr>)
     DEFAULT_GEO_KEYWORDS True DEFAULT_NATIONAL_MODE_KEYWORDS
   \<and> extract_dates
     (blob_of \<lparr>entry_title = Some ''Sciopero Milano'', entry_summary = None,
        entry_description = None, entry_link = None,
        published_parsed = Some \<lparr>tm_year = 9999, tm_mon = 12, tm_mday = 31\<rparr>,
        updated_parsed = None\<rparr>) = Inr []
   \<and> process_entry DEFAULT_GEO_KEYWORDS True DEFAULT_NATIONAL_MODE_KEYWORDS
     \<lparr>entry_title = Some ''Sciopero Milano'', entry_summary = None,
        entry_description = None, entry_link = None,
        published_parsed = Some \<lparr>tm_year = 9999, tm_mon = 12, tm_mday = 31\<rparr>,
        updated_parsed = None\<rparr> = Inl OverflowError"
  by (rule max_stamp_entry)

text \<open>
  Claim C7, as the code has it. Take an included entry whose blob yields no date. When it
  has neither a published nor an updated time stamp, the loop body ends without an event
  and without an error, and the loop goes on with the calendar unchanged. When it has a
  published, or else an updated, time stamp that is a calendar date \<open>d\<close> before 9999-12-31,
  the entry gives an event from \<open>d\<close> to the day after \<open>d\<close>. When that date is 9999-12-31
  the entry ends in \<^verbatim>\<open>OverflowError\<close>.
\<close>

theorem fallback_stamp_or_skip:
  "(should_include (blob_of e) geo_kw include_national nat_mode_kw
      \<and> extract_dates (blob_of e) = Inr []
      \<and> published_parsed e = None \<and> updated_parsed e = None \<longrightarrow>
    process_entry geo_kw include_national nat_mode_kw e = Inr None
      \<and> main_loop geo_kw include_national nat_mode_kw cal (e # es)
          = main_loop geo_kw include_national nat_mode_kw cal es)
   \<and> (should_include (blob_of e) geo_kw include_national nat_mode_kw
      \<and> extract_dates (blob_of e) = Inr []
      \<and> (case published_parsed e of Some p \<Rightarrow> Some p | None \<Rightarrow> updated_parsed e) = Some pp
      \<and> date_new (tm_year pp) (tm_mon pp) (tm_mday pp) = Inr d
      \<and> d \<noteq> Date 9999 12 31 \<longrightarrow>
    (\<exists>ev. process_entry geo_kw include_national nat_mode_kw e = Inr (Some ev)
       \<and> ev_dtstart ev = d \<and> date_add_one_day d = Inr (ev_dtend ev)
       \<and> toordinal (ev_dtend ev) = toordinal d + 1 \<and> d < ev_dtend ev))
   \<and> (should_include (blob_of e) geo_kw include_national nat_mode_kw
      \<and> extract_dates (blob_of e) = Inr []
      \<and> (case published_parsed e of Some p \<Rightarrow> Some p | None \<Rightarrow> updated_parsed e) = Some pp
      \<and> date_new (tm_year pp) (tm_mon pp) (tm_mday pp) = Inr (Date 9999 12 31) \<longrightarrow>
    process_entry geo_kw include_national nat_mode_kw e = Inl OverflowError)"
  by (intro conjI skip_imp fallback_imp fallback_overflow_imp)

theorem fallback_stamp_or_skip_witness:
  "\<exists>ev. process_entry DEFAULT_GEO_KEYWORDS False []
       \<lparr>entry_title = Some ''Sciopero Milano'', entry_summary = None,
        entry_description = None, entry_link = None, published_parsed = None,
        updated_parsed = Some \<lparr>tm_year = 2024, tm_mon = 3, tm_mday = 5\<rparr>\<rparr> = Inr (Some ev)
     \<and> ev_dtstart ev = Date 2024 3 5
     \<and> date_add_one_day (Date 2024 3 5) = Inr (ev_dtend ev)
     \<and> toordinal (ev_dtend ev) = toordinal (Date 2024 3 5) + 1
     \<and> Date 2024 3 5 < ev_dtend ev"
  by (rule mp [OF conjunct1 [OF conjunct2 [OF fallback_stamp_or_skip]] updated_stamp_entry])

end
